theory Spec2Isabelle
  imports Complex_Main "HOL-Library.Sublist"
begin

section \<open>Numbers and the random source\<close>

text \<open>
  The model follows the revision of \<^verbatim>\<open>poissonImageSampler.ts\<close> that takes an image
  list and the \<^verbatim>\<open>isCircle\<close> flag (the second half of \<^verbatim>\<open>src/unnamed/part_000\<close>, after
  the unit tests). The file \<^verbatim>\<open>src/src/poissonImageSampler.ts\<close> is an older revision
  with a fixed radius; it is cited only where the two differ.

  The sampler computes with JavaScript numbers. They are modelled as exact reals: no
  rounding, no NaN and no infinity; a division by a zero cell size, which validated
  options exclude, is not modelled. Integers that the code obtains with
  \<^verbatim>\<open>Math.floor\<close> and \<^verbatim>\<open>Math.ceil\<close> are \<open>int\<close>; the retry budget \<^verbatim>\<open>maxTries\<close> is a
  count and is a \<open>nat\<close>.

  \<^verbatim>\<open>Math.random()\<close> returns a number \<open>r\<close> with \<open>0 \<le> r < 1\<close>. A value of type \<open>draw\<close>
  is one such number; the random source of a run is a function \<open>rnd\<close> that gives the
  \<open>k\<close>-th draw of the run, and every function that calls \<^verbatim>\<open>Math.random()\<close> takes
  \<open>rnd\<close> and the number of draws made so far.
\<close>

typedef draw = "{r::real. 0 \<le> r \<and> r < 1}"
  by (rule exI [of _ 0]) simp

definition val :: "draw \<Rightarrow> real" where
  "val d = Rep_draw d"

definition mkDraw :: "real \<Rightarrow> draw" where
  "mkDraw r = Abs_draw (if 0 \<le> r \<and> r < 1 then r else 0)"

section \<open>Types of the sampler\<close>

record Bounds =
  bounds_x :: real
  bounds_y :: real
  width :: real
  height :: real

record Sample =
  sample_x :: real
  sample_y :: real
  radius :: real
  index :: int

record Image =
  image_size :: real

text \<open>
  \<^verbatim>\<open>SampleList\<close> is a JavaScript array with holes, read and written at integer
  positions: a partial map from positions to samples. A position that was never written
  reads as \<^verbatim>\<open>undefined\<close>, here \<open>None\<close>.
\<close>

type_synonym SampleList = "int \<Rightarrow> Sample option"

text \<open>
  The options as the sampler uses them after its defaults are applied
  (\<^verbatim>\<open>BOUNDS\<close>, \<^verbatim>\<open>IMAGES\<close>, \<^verbatim>\<open>MIN_DIST\<close>, \<^verbatim>\<open>MAX_TRIES\<close>, \<^verbatim>\<open>IS_CIRCLE\<close>).
\<close>

record Options =
  bounds :: Bounds
  images :: "Image list"
  minDist :: real
  maxTries :: nat
  isCircle :: bool

section \<open>The helper functions\<close>

text \<open>\<^verbatim>\<open>clampRandom(min, max)\<close>: \<^verbatim>\<open>min + Math.random() * (max - min)\<close>; one draw.\<close>

definition clampRandom :: "draw \<Rightarrow> real \<Rightarrow> real \<Rightarrow> real" where
  "clampRandom r mn mx = mn + val r * (mx - mn)"

text \<open>\<^verbatim>\<open>getRadiusForSize(size)\<close>: \<^verbatim>\<open>Math.sqrt(Math.pow(size, 2) * 2) * 0.5\<close>.\<close>

definition getRadiusForSize :: "real \<Rightarrow> real" where
  "getRadiusForSize sz = sqrt (sz ^ 2 * 2) * 0.5"

text \<open>
  \<^verbatim>\<open>createFirstSample(bounds, image, isCircle)\<close>: two draws, the first for \<open>x\<close> and the
  second for \<open>y\<close>.
\<close>

definition createFirstSample :: "(nat \<Rightarrow> draw) \<Rightarrow> nat \<Rightarrow> Bounds \<Rightarrow> Image \<Rightarrow> bool \<Rightarrow> Sample" where
  "createFirstSample rnd k b img circ =
     (let sz = image_size img in
      \<lparr> sample_x = clampRandom (rnd k) (bounds_x b + sz) (width b + bounds_x b - sz),
        sample_y = clampRandom (rnd (k + 1)) (bounds_y b + sz) (height b + bounds_y b - sz),
        radius = (if circ then sz else getRadiusForSize sz),
        index = 0 \<rparr>)"

text \<open>
  \<^verbatim>\<open>images[randomImageIndex]\<close>: an array read. Outside the array it gives
  \<^verbatim>\<open>undefined\<close>, and taking \<^verbatim>\<open>size\<close> from it throws a TypeError.
\<close>

definition imageAt :: "Image list \<Rightarrow> int \<Rightarrow> Image option" where
  "imageAt imgs i = (if 0 \<le> i \<and> i < int (length imgs) then Some (imgs ! nat i) else None)"

text \<open>
  \<^verbatim>\<open>createSampleFromSample(sample, images, minDist, isCircle)\<close>: four draws, in the
  order of the source: the image index, the angle, the distance used for \<open>x\<close> and the
  distance used for \<open>y\<close> (\<^verbatim>\<open>clampRandom\<close> is called once in each coordinate). The
  result is \<open>None\<close> where the source throws.
\<close>

definition createSampleFromSample ::
  "(nat \<Rightarrow> draw) \<Rightarrow> nat \<Rightarrow> Sample \<Rightarrow> Image list \<Rightarrow> real \<Rightarrow> bool \<Rightarrow> Sample option" where
  "createSampleFromSample rnd k sample imgs md circ =
     (let randomImageIndex = \<lfloor>val (rnd k) * real (length imgs)\<rfloor> in
      case imageAt imgs randomImageIndex of
        None \<Rightarrow> None
      | Some img \<Rightarrow>
          (let sz = image_size img;
               angle = val (rnd (k + 1)) * pi * 2;
               minRadius = md + sz + radius sample;
               maxRadius = minRadius + md
           in Some
             \<lparr> sample_x = sample_x sample + cos angle * clampRandom (rnd (k + 2)) minRadius maxRadius,
               sample_y = sample_y sample + sin angle * clampRandom (rnd (k + 3)) minRadius maxRadius,
               radius = (if circ then sz else getRadiusForSize sz),
               index = randomImageIndex \<rparr>))"

text \<open>\<^verbatim>\<open>getIndexInGrid(sample, cellSize, cols)\<close>.\<close>

definition getIndexInGrid :: "Sample \<Rightarrow> real \<Rightarrow> int \<Rightarrow> int" where
  "getIndexInGrid sample cellSize cols =
     (let col = \<lfloor>sample_x sample / cellSize\<rfloor>;
          row = \<lfloor>sample_y sample / cellSize\<rfloor>
      in col + row * cols)"

text \<open>
  \<^verbatim>\<open>isInBounds(sample, col, row, cols, rows, bounds)\<close>. The rectangle tests compare
  with \<open>0\<close> and with the width and height; the origin of the bounds is not read.
\<close>

definition isInBounds :: "Sample \<Rightarrow> int \<Rightarrow> int \<Rightarrow> int \<Rightarrow> int \<Rightarrow> Bounds \<Rightarrow> bool" where
  "isInBounds sample col row cols rows b =
     (col < cols \<and>
      row < rows \<and>
      sample_x sample - radius sample \<ge> 0 \<and>
      sample_x sample + radius sample \<le> width b \<and>
      sample_y sample - radius sample \<ge> 0 \<and>
      sample_y sample + radius sample \<le> height b)"

text \<open>\<^verbatim>\<open>Math.hypot(dx, dy)\<close>.\<close>

definition hypot :: "real \<Rightarrow> real \<Rightarrow> real" where
  "hypot dx dy = sqrt (dx ^ 2 + dy ^ 2)"

text \<open>
  The test that \<^verbatim>\<open>isAllowedToDraw\<close> makes on one grid position: an empty position
  never blocks; a neighbour blocks when it is nearer than
  \<^verbatim>\<open>minDist + sample.radius + neighbour.radius\<close>.
\<close>

definition tooClose :: "Sample \<Rightarrow> real \<Rightarrow> Sample option \<Rightarrow> bool" where
  "tooClose sample md neighbour =
     (case neighbour of
        None \<Rightarrow> False
      | Some n \<Rightarrow>
          hypot (sample_x n - sample_x sample) (sample_y n - sample_y sample)
            < md + radius sample + radius n)"

text \<open>
  \<^verbatim>\<open>isAllowedToDraw(sample, cellSize, cols, minDist, grid, range)\<close>: the two nested
  loops over \<open>i\<close> and \<open>j\<close> from \<open>-range\<close> to \<open>range\<close>, which return \<^verbatim>\<open>false\<close> at the
  first neighbour that blocks.
\<close>

definition isAllowedToDraw :: "Sample \<Rightarrow> real \<Rightarrow> int \<Rightarrow> real \<Rightarrow> SampleList \<Rightarrow> int \<Rightarrow> bool" where
  "isAllowedToDraw sample cellSize cols md grid rng =
     (let col = \<lfloor>sample_x sample / cellSize\<rfloor>;
          row = \<lfloor>sample_y sample / cellSize\<rfloor>
      in list_all (\<lambda>i. list_all (\<lambda>j.
           \<not> tooClose sample md (grid (col + i + (row + j) * cols))) [- rng..rng]) [- rng..rng])"

text \<open>
  \<^verbatim>\<open>hasValidImageList(imageList)\<close> on a typed list: the list is not empty and the
  \<^verbatim>\<open>reduce\<close> stays a number, which it does when no size is falsy (zero).
\<close>

definition hasValidImageList :: "Image list \<Rightarrow> bool" where
  "hasValidImageList imgs = (imgs \<noteq> [] \<and> list_all (\<lambda>v. image_size v \<noteq> 0) imgs)"

section \<open>The sampler\<close>

text \<open>
  The constants that \<^verbatim>\<open>poissonImageSampler\<close> computes once: the cell size, the numbers
  of columns and rows, the neighbour range, and the column and row of the first sample
  (the variables \<^verbatim>\<open>col\<close> and \<^verbatim>\<open>row\<close> of the function body).
\<close>

record Consts =
  BOUNDS :: Bounds
  IMAGES :: "Image list"
  IS_CIRCLE :: bool
  MIN_DIST :: real
  MAX_TRIES :: nat
  CELL_SIZE :: real
  COLS :: int
  ROWS :: int
  RANGE :: int
  first_col :: int
  first_row :: int

text \<open>
  The mutable state of a run: the grid, the active list, the flag
  \<^verbatim>\<open>hasFoundNewSample\<close> of the current outer iteration, and the number of draws made.
\<close>

record State =
  GRID :: SampleList
  ACTIVE :: "Sample list"
  hasFoundNewSample :: bool
  draws :: nat

definition firstSample :: "(nat \<Rightarrow> draw) \<Rightarrow> Options \<Rightarrow> Sample" where
  "firstSample rnd opts = createFirstSample rnd 0 (bounds opts) (images opts ! 0) (isCircle opts)"

definition cellSizeOf :: "Options \<Rightarrow> real" where
  "cellSizeOf opts =
     (let minRadius = Min (set (map image_size (images opts)))
      in (minDist opts + minRadius * 2) / sqrt 2)"

definition mkConsts :: "(nat \<Rightarrow> draw) \<Rightarrow> Options \<Rightarrow> Consts" where
  "mkConsts rnd opts =
     (let maxRadius = Max (set (map image_size (images opts)));
          cs = cellSizeOf opts;
          sample = firstSample rnd opts
      in \<lparr> BOUNDS = bounds opts,
           IMAGES = images opts,
           IS_CIRCLE = isCircle opts,
           MIN_DIST = minDist opts,
           MAX_TRIES = maxTries opts,
           CELL_SIZE = cs,
           COLS = \<lfloor>width (bounds opts) / cs\<rfloor>,
           ROWS = \<lfloor>height (bounds opts) / cs\<rfloor>,
           RANGE = \<lceil>(minDist opts + maxRadius * 2) / cs\<rceil>,
           first_col = \<lfloor>sample_x sample / cs\<rfloor>,
           first_row = \<lfloor>sample_y sample / cs\<rfloor> \<rparr>)"

text \<open>
  The body of the \<^verbatim>\<open>for\<close> loop, \<open>n\<close> times, for the seed \<open>activeSample\<close>. Each
  round makes the four draws of \<^verbatim>\<open>createSampleFromSample\<close>. The in-bounds test is
  called with \<^verbatim>\<open>col\<close> and \<^verbatim>\<open>row\<close>, the column and row of the first sample, as in
  the source. An accepted candidate is written into the grid at its index and pushed
  onto the active list, and the loop goes on. \<open>None\<close>: the source throws.
\<close>

fun tries :: "(nat \<Rightarrow> draw) \<Rightarrow> Consts \<Rightarrow> Sample \<Rightarrow> nat \<Rightarrow> State \<Rightarrow> State option" where
  "tries rnd C activeSample 0 st = Some st"
| "tries rnd C activeSample (Suc n) st =
     (case createSampleFromSample rnd (draws st) activeSample (IMAGES C) (MIN_DIST C) (IS_CIRCLE C) of
        None \<Rightarrow> None
      | Some newSample \<Rightarrow>
          (let st1 = st\<lparr>draws := draws st + 4\<rparr> in
           if \<not> isInBounds newSample (first_col C) (first_row C) (COLS C) (ROWS C) (BOUNDS C)
             then tries rnd C activeSample n st1
           else if \<not> isAllowedToDraw newSample (CELL_SIZE C) (COLS C) (MIN_DIST C) (GRID st1) (RANGE C)
             then tries rnd C activeSample n st1
           else tries rnd C activeSample n
                  (st1\<lparr>GRID := (GRID st1)(getIndexInGrid newSample (CELL_SIZE C) (COLS C) \<mapsto> newSample),
                       ACTIVE := ACTIVE st1 @ [newSample],
                       hasFoundNewSample := True\<rparr>)))"

text \<open>\<^verbatim>\<open>ACTIVE.splice(i, 1)\<close>.\<close>

definition splice1 :: "'a list \<Rightarrow> nat \<Rightarrow> 'a list" where
  "splice1 xs i = take i xs @ drop (Suc i) xs"

text \<open>
  One iteration of the \<^verbatim>\<open>while\<close> loop, for a non-empty active list: one draw for the
  seed's position in the active list, the \<^verbatim>\<open>for\<close> loop, and the removal of the seed
  when no candidate was accepted.
\<close>

definition randomActiveIndex :: "(nat \<Rightarrow> draw) \<Rightarrow> State \<Rightarrow> nat" where
  "randomActiveIndex rnd st = nat \<lfloor>val (rnd (draws st)) * real (length (ACTIVE st))\<rfloor>"

definition outerStep :: "(nat \<Rightarrow> draw) \<Rightarrow> Consts \<Rightarrow> State \<Rightarrow> State option" where
  "outerStep rnd C st =
     (let i = randomActiveIndex rnd st;
          activeSample = ACTIVE st ! i
      in case tries rnd C activeSample (MAX_TRIES C)
                (st\<lparr>hasFoundNewSample := False, draws := draws st + 1\<rparr>) of
           None \<Rightarrow> None
         | Some st' \<Rightarrow>
             Some (if \<not> hasFoundNewSample st' then st'\<lparr>ACTIVE := splice1 (ACTIVE st') i\<rparr> else st'))"

text \<open>
  What a call of the sampler does: it returns a grid (with the number of draws it made),
  it throws, or it is still running when the fuel, a bound on the number of iterations
  of the \<^verbatim>\<open>while\<close> loop, is used up.
\<close>

datatype Outcome = Returned SampleList nat | TypeError | OutOfFuel

text \<open>\<^verbatim>\<open>while (ACTIVE.length) { ... }\<close> followed by \<^verbatim>\<open>return GRID\<close>.\<close>

fun samplerLoop :: "(nat \<Rightarrow> draw) \<Rightarrow> Consts \<Rightarrow> nat \<Rightarrow> State \<Rightarrow> Outcome" where
  "samplerLoop rnd C 0 st =
     (if ACTIVE st = [] then Returned (GRID st) (draws st) else OutOfFuel)"
| "samplerLoop rnd C (Suc fuel) st =
     (if ACTIVE st = [] then Returned (GRID st) (draws st)
      else case outerStep rnd C st of
             None \<Rightarrow> TypeError
           | Some st' \<Rightarrow> samplerLoop rnd C fuel st')"

text \<open>The state when the \<^verbatim>\<open>while\<close> loop is entered: the first sample is in the grid and active.\<close>

definition initState :: "(nat \<Rightarrow> draw) \<Rightarrow> Options \<Rightarrow> State" where
  "initState rnd opts =
     (let sample = firstSample rnd opts
      in \<lparr> GRID = [getIndexInGrid sample (cellSizeOf opts) (COLS (mkConsts rnd opts)) \<mapsto> sample],
           ACTIVE = [sample],
           hasFoundNewSample = False,
           draws = 2 \<rparr>)"

text \<open>
  \<^verbatim>\<open>poissonImageSampler(options)\<close> on typed options: the image list is validated, the
  constants are computed, the first sample is created and tested, and the loop runs.
  Both early returns give a new empty array.
\<close>

definition poissonImageSampler :: "(nat \<Rightarrow> draw) \<Rightarrow> nat \<Rightarrow> Options \<Rightarrow> Outcome" where
  "poissonImageSampler rnd fuel opts =
     (if \<not> hasValidImageList (images opts) then Returned Map.empty 0
      else
        (let C = mkConsts rnd opts;
             sample = firstSample rnd opts
         in if \<not> isInBounds sample (first_col C) (first_row C) (COLS C) (ROWS C) (BOUNDS C)
              then Returned Map.empty 2
            else samplerLoop rnd C fuel (initState rnd opts)))"

section \<open>Validated options and grid properties\<close>

text \<open>
  The options that the validation layer passes on: bounds of positive width and height, a
  non-empty list of positive sizes, \<open>minDist \<ge> 0\<close> and at least one try.
\<close>

definition validated :: "Options \<Rightarrow> bool" where
  "validated opts =
     (0 < width (bounds opts) \<and> 0 < height (bounds opts) \<and>
      images opts \<noteq> [] \<and> list_all (\<lambda>v. 0 < image_size v) (images opts) \<and>
      0 \<le> minDist opts \<and> 1 \<le> maxTries opts)"

text \<open>
  A grid in which every sample is stored at its own index, no radius exceeds \<open>mx\<close>, and
  samples at different positions keep the spacing \<open>md\<close> plus their radii.
\<close>

definition spacedGrid :: "real \<Rightarrow> int \<Rightarrow> real \<Rightarrow> real \<Rightarrow> SampleList \<Rightarrow> bool" where
  "spacedGrid cs cols md mx g =
     ((\<forall>k n. g k = Some n \<longrightarrow> k = getIndexInGrid n cs cols \<and> radius n \<le> mx) \<and>
      (\<forall>i j a b. i \<noteq> j \<longrightarrow> g i = Some a \<longrightarrow> g j = Some b \<longrightarrow>
         md + radius a + radius b \<le> hypot (sample_x b - sample_x a) (sample_y b - sample_y a)))"

text \<open>A grid in which every sample's index is a position of the image list.\<close>

definition indexedGrid :: "Image list \<Rightarrow> SampleList \<Rightarrow> bool" where
  "indexedGrid imgs g = (\<forall>k n. g k = Some n \<longrightarrow> 0 \<le> index n \<and> index n < int (length imgs))"

section \<open>Concrete runs\<close>

text \<open>
  Options with bounds 40 by 40, one image of size 5 drawn as a circle and \<open>minDist = 20\<close>;
  the left edge of the bounds and the number of tries are parameters. The cell size is
  \<open>30 / sqrt 2\<close>, about \<open>21.2\<close>, which gives one column, one row and a neighbour range of
  \<open>2\<close>.
\<close>

definition exOpts :: "real \<Rightarrow> nat \<Rightarrow> Options" where
  "exOpts bx mt =
     \<lparr> bounds = \<lparr> bounds_x = bx, bounds_y = 0, width = 40, height = 40 \<rparr>,
       images = [\<lparr> image_size = 5 \<rparr>],
       minDist = 20,
       maxTries = mt,
       isCircle = True \<rparr>"

definition exCell :: real where
  "exCell = 30 / sqrt 2"

definition exConsts :: "real \<Rightarrow> nat \<Rightarrow> Consts" where
  "exConsts bx mt =
     \<lparr> BOUNDS = \<lparr> bounds_x = bx, bounds_y = 0, width = 40, height = 40 \<rparr>,
       IMAGES = [\<lparr> image_size = 5 \<rparr>],
       IS_CIRCLE = True,
       MIN_DIST = 20,
       MAX_TRIES = mt,
       CELL_SIZE = exCell,
       COLS = 1,
       ROWS = 1,
       RANGE = 2,
       first_col = 0,
       first_row = 0 \<rparr>"

text \<open>
  The first sample \<open>exF\<close> at \<open>(5, 5)\<close>, its candidate to the east \<open>exA\<close> (angle \<open>0\<close>,
  distance \<open>30\<close>) and its candidate to the south \<open>exB\<close> (angle \<open>\<pi>/2\<close>, distance \<open>30\<close>).
\<close>

definition exF :: Sample where
  "exF = \<lparr> sample_x = 5, sample_y = 5, radius = 5, index = 0 \<rparr>"

definition exA :: Sample where
  "exA = \<lparr> sample_x = 35, sample_y = 5, radius = 5, index = 0 \<rparr>"

definition exB :: Sample where
  "exB = \<lparr> sample_x = 5, sample_y = 35, radius = 5, index = 0 \<rparr>"

text \<open>
  Random sources: \<open>exRnd r\<close> gives \<open>r\<close> as the first draw and \<open>0\<close> afterwards;
  \<open>exRndLoop\<close> gives \<open>1/4\<close> at the draws \<open>8, 17, 26, \<dots>\<close> and \<open>0\<close> elsewhere.
\<close>

definition exRnd :: "real \<Rightarrow> nat \<Rightarrow> draw" where
  "exRnd r k = mkDraw (if k = 0 then r else 0)"

definition exRndLoop :: "nat \<Rightarrow> draw" where
  "exRndLoop k = mkDraw (if k mod 9 = 8 then 1 / 4 else 0)"

text \<open>One image of size 10 in bounds of width and height 0.\<close>

definition exFlat :: Options where
  "exFlat = \<lparr> bounds = \<lparr> bounds_x = 0, bounds_y = 0, width = 0, height = 0 \<rparr>,
       images = [\<lparr> image_size = 10 \<rparr>],
       minDist = 20,
       maxTries = 30,
       isCircle = False \<rparr>"

text \<open>
  The same options with bounds 80 by 80, which give three columns and three rows, and a
  random source whose eighth draw is \<open>1/2\<close> and whose other draws are \<open>0\<close>.
\<close>

definition exWide :: "nat \<Rightarrow> Options" where
  "exWide mt =
     \<lparr> bounds = \<lparr> bounds_x = 0, bounds_y = 0, width = 80, height = 80 \<rparr>,
       images = [\<lparr> image_size = 5 \<rparr>],
       minDist = 20,
       maxTries = mt,
       isCircle = True \<rparr>"

definition exWideConsts :: "nat \<Rightarrow> Consts" where
  "exWideConsts mt =
     \<lparr> BOUNDS = \<lparr> bounds_x = 0, bounds_y = 0, width = 80, height = 80 \<rparr>,
       IMAGES = [\<lparr> image_size = 5 \<rparr>],
       IS_CIRCLE = True,
       MIN_DIST = 20,
       MAX_TRIES = mt,
       CELL_SIZE = exCell,
       COLS = 3,
       ROWS = 3,
       RANGE = 2,
       first_col = 0,
       first_row = 0 \<rparr>"

definition exRndPick :: "nat \<Rightarrow> draw" where
  "exRndPick k = mkDraw (if k = 7 then 1 / 2 else 0)"

section \<open>Basic facts\<close>

lemma val_range: "0 \<le> val d" "val d < 1"
  using Rep_draw [of d] by (simp_all add: val_def)

lemma val_mkDraw: "0 \<le> r \<Longrightarrow> r < 1 \<Longrightarrow> val (mkDraw r) = r"
  by (simp add: val_def mkDraw_def Abs_draw_inverse)

section \<open>Radii, draws and candidates\<close>

lemma getRadiusForSize_nonneg: "0 \<le> sz \<Longrightarrow> getRadiusForSize sz = sz * sqrt 2 / 2"
  by (simp add: getRadiusForSize_def real_sqrt_mult)

lemma getRadiusForSize_alt: "getRadiusForSize sz = sqrt (2 * sz\<^sup>2) / 2"
  by (simp add: getRadiusForSize_def mult.commute)

lemma imageAt_draw:
  assumes "imgs \<noteq> []"
  shows "imageAt imgs \<lfloor>val d * real (length imgs)\<rfloor> = Some (imgs ! nat \<lfloor>val d * real (length imgs)\<rfloor>)"
proof -
  have len: "0 < real (length imgs)" using assms by simp
  have "0 \<le> val d * real (length imgs)" using val_range(1) [of d] by simp
  then have lo: "0 \<le> \<lfloor>val d * real (length imgs)\<rfloor>" by simp
  have "val d * real (length imgs) < 1 * real (length imgs)"
    using val_range(2) [of d] len by (intro mult_strict_right_mono) simp_all
  then have "\<lfloor>val d * real (length imgs)\<rfloor> < int (length imgs)"
    by (simp add: floor_less_iff)
  with lo show ?thesis by (simp add: imageAt_def)
qed

lemma clampRandom_range:
  assumes "mn \<le> mx"
  shows "mn \<le> clampRandom d mn mx" "clampRandom d mn mx \<le> mx"
proof -
  have "0 \<le> val d * (mx - mn)" using val_range(1) [of d] assms by simp
  then show "mn \<le> clampRandom d mn mx" by (simp add: clampRandom_def)
  have "val d * (mx - mn) \<le> 1 * (mx - mn)"
    using val_range(2) [of d] assms by (intro mult_right_mono) simp_all
  then show "clampRandom d mn mx \<le> mx" by (simp add: clampRandom_def)
qed

lemma ellipse_bounds:
  fixes c s :: real
  assumes cs: "c\<^sup>2 + s\<^sup>2 = 1" and m: "0 \<le> m" and d1: "m \<le> d1" "d1 \<le> M" and d2: "m \<le> d2" "d2 \<le> M"
  shows "m \<le> sqrt ((c * d1)\<^sup>2 + (s * d2)\<^sup>2)" "sqrt ((c * d1)\<^sup>2 + (s * d2)\<^sup>2) \<le> M"
proof -
  have M: "0 \<le> M" using m d1 by linarith
  have a1: "m\<^sup>2 \<le> d1\<^sup>2" "d1\<^sup>2 \<le> M\<^sup>2" using m d1 by (simp_all add: power_mono)
  have a2: "m\<^sup>2 \<le> d2\<^sup>2" "d2\<^sup>2 \<le> M\<^sup>2" using m d2 by (simp_all add: power_mono)
  have e: "(c * d1)\<^sup>2 + (s * d2)\<^sup>2 = c\<^sup>2 * d1\<^sup>2 + s\<^sup>2 * d2\<^sup>2" by (simp add: power_mult_distrib)
  have "c\<^sup>2 * m\<^sup>2 + s\<^sup>2 * m\<^sup>2 \<le> c\<^sup>2 * d1\<^sup>2 + s\<^sup>2 * d2\<^sup>2"
    using a1 a2 by (intro add_mono mult_left_mono) simp_all
  moreover have "c\<^sup>2 * m\<^sup>2 + s\<^sup>2 * m\<^sup>2 = m\<^sup>2" using cs by (simp add: distrib_right [symmetric])
  ultimately have lo: "m\<^sup>2 \<le> (c * d1)\<^sup>2 + (s * d2)\<^sup>2" using e by simp
  have "c\<^sup>2 * d1\<^sup>2 + s\<^sup>2 * d2\<^sup>2 \<le> c\<^sup>2 * M\<^sup>2 + s\<^sup>2 * M\<^sup>2"
    using a1 a2 by (intro add_mono mult_left_mono) simp_all
  moreover have "c\<^sup>2 * M\<^sup>2 + s\<^sup>2 * M\<^sup>2 = M\<^sup>2" using cs by (simp add: distrib_right [symmetric])
  ultimately have hi: "(c * d1)\<^sup>2 + (s * d2)\<^sup>2 \<le> M\<^sup>2" using e by simp
  show "m \<le> sqrt ((c * d1)\<^sup>2 + (s * d2)\<^sup>2)"
    using lo m by (simp add: real_le_rsqrt)
  show "sqrt ((c * d1)\<^sup>2 + (s * d2)\<^sup>2) \<le> M"
    using hi M by (simp add: real_le_lsqrt)
qed

text \<open>
  Claim C7 (the annulus of a candidate). For a non-empty list of positive sizes,
  \<open>minDist \<ge> 0\<close> and a seed of non-negative radius, \<^verbatim>\<open>createSampleFromSample\<close> returns a
  sample whose index is a position of the image list and whose Euclidean distance from
  the seed lies between \<open>minDist + seed.radius + size\<close> and that plus \<open>minDist\<close>, where
  \<open>size\<close> is the size of the chosen image. The two coordinates use two draws of the
  distance, both in this interval.
\<close>

theorem createSampleFromSample_distance:
  assumes imgs: "imgs \<noteq> []" "list_all (\<lambda>v. 0 < image_size v) imgs"
    and md: "0 \<le> md" and rad: "0 \<le> radius s"
  shows "\<exists>c. createSampleFromSample rnd k s imgs md circ = Some c \<and>
           0 \<le> index c \<and> index c < int (length imgs) \<and>
           md + radius s + image_size (imgs ! nat (index c))
             \<le> hypot (sample_x c - sample_x s) (sample_y c - sample_y s) \<and>
           hypot (sample_x c - sample_x s) (sample_y c - sample_y s)
             \<le> md + radius s + image_size (imgs ! nat (index c)) + md"
proof -
  define i where "i = \<lfloor>val (rnd k) * real (length imgs)\<rfloor>"
  have at: "imageAt imgs i = Some (imgs ! nat i)"
    unfolding i_def using imgs(1) by (rule imageAt_draw)
  then have irange: "0 \<le> i" "i < int (length imgs)"
    by (auto simp: imageAt_def split: if_splits)
  define sz where "sz = image_size (imgs ! nat i)"
  have "imgs ! nat i \<in> set imgs" using irange by simp
  then have sz: "0 < sz" using imgs(2) by (simp add: sz_def list_all_iff)
  define m where "m = md + sz + radius s"
  define a where "a = val (rnd (k + 1)) * pi * 2"
  define c where "c = \<lparr> sample_x = sample_x s + cos a * clampRandom (rnd (k + 2)) m (m + md),
               sample_y = sample_y s + sin a * clampRandom (rnd (k + 3)) m (m + md),
               radius = (if circ then sz else getRadiusForSize sz),
               index = i \<rparr>"
  have res: "createSampleFromSample rnd k s imgs md circ = Some c"
    using at by (simp add: createSampleFromSample_def Let_def i_def [symmetric] c_def sz_def m_def a_def)
  have m0: "0 \<le> m" using md sz rad by (simp add: m_def)
  have mm: "m \<le> m + md" using md by simp
  have b: "m \<le> hypot (sample_x c - sample_x s) (sample_y c - sample_y s)"
       "hypot (sample_x c - sample_x s) (sample_y c - sample_y s) \<le> m + md"
    unfolding hypot_def c_def
    using ellipse_bounds [of "cos a" "sin a" m "clampRandom (rnd (k + 2)) m (m + md)" "m + md"
        "clampRandom (rnd (k + 3)) m (m + md)"] m0 clampRandom_range [OF mm]
    by simp_all
  have "index c = i" by (simp add: c_def)
  with res b irange show ?thesis
    by (auto simp: m_def sz_def algebra_simps)
qed

lemma createSampleFromSample_eq:
  assumes "imgs \<noteq> []"
  shows "createSampleFromSample rnd k s imgs md circ =
     Some \<lparr> sample_x = sample_x s + cos (val (rnd (k + 1)) * pi * 2) *
                 clampRandom (rnd (k + 2))
                   (md + image_size (imgs ! nat \<lfloor>val (rnd k) * real (length imgs)\<rfloor>) + radius s)
                   (md + image_size (imgs ! nat \<lfloor>val (rnd k) * real (length imgs)\<rfloor>) + radius s + md),
            sample_y = sample_y s + sin (val (rnd (k + 1)) * pi * 2) *
                 clampRandom (rnd (k + 3))
                   (md + image_size (imgs ! nat \<lfloor>val (rnd k) * real (length imgs)\<rfloor>) + radius s)
                   (md + image_size (imgs ! nat \<lfloor>val (rnd k) * real (length imgs)\<rfloor>) + radius s + md),
            radius = (if circ then image_size (imgs ! nat \<lfloor>val (rnd k) * real (length imgs)\<rfloor>)
                      else getRadiusForSize (image_size (imgs ! nat \<lfloor>val (rnd k) * real (length imgs)\<rfloor>))),
            index = \<lfloor>val (rnd k) * real (length imgs)\<rfloor> \<rparr>"
  using imageAt_draw [OF assms, of "rnd k"]
  by (simp add: createSampleFromSample_def Let_def)

lemma draw_index_range:
  fixes imgs :: "Image list"
  assumes "imgs \<noteq> []"
  shows "0 \<le> \<lfloor>val d * real (length imgs)\<rfloor>" "\<lfloor>val d * real (length imgs)\<rfloor> < int (length imgs)"
  using imageAt_draw [OF assms, of d] by (auto simp: imageAt_def split: if_splits)

section \<open>The effect of one outer iteration\<close>

lemma draw_floor_range:
  assumes "0 < n"
  shows "nat \<lfloor>val d * real n\<rfloor> < n"
proof -
  have "val d * real n < 1 * real n"
    using val_range(2) [of d] assms by (intro mult_strict_right_mono) simp_all
  then have "\<lfloor>val d * real n\<rfloor> < int n" by (simp add: floor_less_iff)
  then show ?thesis using assms by linarith
qed

lemma tries_trace:
  assumes "IMAGES C \<noteq> []"
  shows "\<exists>st' cs xs.
           tries rnd C a n st = Some st' \<and>
           length cs = n \<and>
           (\<forall>j<n. createSampleFromSample rnd (draws st + 4 * j) a (IMAGES C) (MIN_DIST C) (IS_CIRCLE C)
                    = Some (cs ! j)) \<and>
           draws st' = draws st + 4 * n \<and>
           subseq xs cs \<and>
           (\<forall>x\<in>set xs. isInBounds x (first_col C) (first_row C) (COLS C) (ROWS C) (BOUNDS C)) \<and>
           (xs = [] \<longleftrightarrow>
              (\<forall>j<n. \<not> (isInBounds (cs ! j) (first_col C) (first_row C) (COLS C) (ROWS C) (BOUNDS C) \<and>
                         isAllowedToDraw (cs ! j) (CELL_SIZE C) (COLS C) (MIN_DIST C) (GRID st) (RANGE C)))) \<and>
           hasFoundNewSample st' = (hasFoundNewSample st \<or> xs \<noteq> []) \<and>
           ACTIVE st' = ACTIVE st @ xs \<and>
           (\<forall>k. k \<notin> (\<lambda>x. getIndexInGrid x (CELL_SIZE C) (COLS C)) ` set xs \<longrightarrow> GRID st' k = GRID st k) \<and>
           (\<forall>x\<in>set xs. \<exists>y\<in>set xs. GRID st' (getIndexInGrid x (CELL_SIZE C) (COLS C)) = Some y)"
proof (induction n arbitrary: st)
  case 0
  show ?case by (intro exI [of _ st] exI [of _ "[]"]) simp
next
  case (Suc n)
  let ?idx = "\<lambda>x. getIndexInGrid x (CELL_SIZE C) (COLS C)"
  let ?inB = "\<lambda>x. isInBounds x (first_col C) (first_row C) (COLS C) (ROWS C) (BOUNDS C)"
  let ?ok = "\<lambda>x g. ?inB x \<and> isAllowedToDraw x (CELL_SIZE C) (COLS C) (MIN_DIST C) g (RANGE C)"
  let ?gen = "\<lambda>k. createSampleFromSample rnd k a (IMAGES C) (MIN_DIST C) (IS_CIRCLE C)"
  obtain c where c: "?gen (draws st) = Some c"
    using createSampleFromSample_eq [OF assms] by blast
  define st1 where "st1 = st\<lparr>draws := draws st + 4\<rparr>"
  define st2 where "st2 = st1\<lparr>GRID := (GRID st1)(?idx c \<mapsto> c),
                       ACTIVE := ACTIVE st1 @ [c], hasFoundNewSample := True\<rparr>"
  show ?case
  proof (cases "?ok c (GRID st)")
    case False
    then have step: "tries rnd C a (Suc n) st = tries rnd C a n st1"
      using c by (auto simp: Let_def st1_def)
    from Suc.IH [of st1] obtain st' cs xs where ih:
      "tries rnd C a n st1 = Some st'" "length cs = n"
      "\<forall>j<n. ?gen (draws st1 + 4 * j) = Some (cs ! j)"
      "draws st' = draws st1 + 4 * n" "subseq xs cs" "\<forall>x\<in>set xs. ?inB x"
      "xs = [] \<longleftrightarrow> (\<forall>j<n. \<not> ?ok (cs ! j) (GRID st1))"
      "hasFoundNewSample st' = (hasFoundNewSample st1 \<or> xs \<noteq> [])"
      "ACTIVE st' = ACTIVE st1 @ xs"
      "\<forall>k. k \<notin> ?idx ` set xs \<longrightarrow> GRID st' k = GRID st1 k"
      "\<forall>x\<in>set xs. \<exists>y\<in>set xs. GRID st' (?idx x) = Some y"
      by blast
    have gen: "\<forall>j<Suc n. ?gen (draws st + 4 * j) = Some ((c # cs) ! j)"
    proof (intro allI impI)
      fix j assume "j < Suc n"
      show "?gen (draws st + 4 * j) = Some ((c # cs) ! j)"
      proof (cases j)
        case 0
        then show ?thesis using c by simp
      next
        case (Suc j')
        then have "j' < n" using \<open>j < Suc n\<close> by simp
        then have g: "?gen (draws st1 + 4 * j') = Some (cs ! j')" using ih(3) by blast
        have e: "draws st + 4 * Suc j' = draws st1 + 4 * j'" by (simp add: st1_def)
        from g show ?thesis unfolding Suc e nth_Cons_Suc .
      qed
    qed
    have none: "xs = [] \<longleftrightarrow> (\<forall>j<Suc n. \<not> ?ok ((c # cs) ! j) (GRID st))"
    proof -
      have "(\<forall>j<Suc n. \<not> ?ok ((c # cs) ! j) (GRID st)) \<longleftrightarrow>
            (\<not> ?ok c (GRID st) \<and> (\<forall>j<n. \<not> ?ok (cs ! j) (GRID st)))"
        by (simp add: All_less_Suc2)
      then show ?thesis using ih(7) False by (simp add: st1_def)
    qed
    show ?thesis
      apply (rule exI [of _ st'], rule exI [of _ "c # cs"], rule exI [of _ xs], intro conjI)
      subgoal using step ih(1) by simp
      subgoal using ih(2) by simp
      subgoal using gen .
      subgoal using ih(4) by (simp add: st1_def)
      subgoal using ih(5) by (rule list_emb_Cons)
      subgoal using ih(6) .
      subgoal using none .
      subgoal using ih(8) by (simp add: st1_def)
      subgoal using ih(9) by (simp add: st1_def)
      subgoal using ih(10) by (simp add: st1_def)
      subgoal using ih(11) .
      done
  next
    case True
    then have step: "tries rnd C a (Suc n) st = tries rnd C a n st2"
      using c by (simp add: Let_def st1_def st2_def)
    from Suc.IH [of st2] obtain st' cs xs where ih:
      "tries rnd C a n st2 = Some st'" "length cs = n"
      "\<forall>j<n. ?gen (draws st2 + 4 * j) = Some (cs ! j)"
      "draws st' = draws st2 + 4 * n" "subseq xs cs" "\<forall>x\<in>set xs. ?inB x"
      "xs = [] \<longleftrightarrow> (\<forall>j<n. \<not> ?ok (cs ! j) (GRID st2))"
      "hasFoundNewSample st' = (hasFoundNewSample st2 \<or> xs \<noteq> [])"
      "ACTIVE st' = ACTIVE st2 @ xs"
      "\<forall>k. k \<notin> ?idx ` set xs \<longrightarrow> GRID st' k = GRID st2 k"
      "\<forall>x\<in>set xs. \<exists>y\<in>set xs. GRID st' (?idx x) = Some y"
      by blast
    have gen: "\<forall>j<Suc n. ?gen (draws st + 4 * j) = Some ((c # cs) ! j)"
    proof (intro allI impI)
      fix j assume "j < Suc n"
      show "?gen (draws st + 4 * j) = Some ((c # cs) ! j)"
      proof (cases j)
        case 0
        then show ?thesis using c by simp
      next
        case (Suc j')
        then have "j' < n" using \<open>j < Suc n\<close> by simp
        then have g: "?gen (draws st2 + 4 * j') = Some (cs ! j')" using ih(3) by blast
        have e: "draws st + 4 * Suc j' = draws st2 + 4 * j'" by (simp add: st1_def st2_def)
        from g show ?thesis unfolding Suc e nth_Cons_Suc .
      qed
    qed
    have none: "c # xs = [] \<longleftrightarrow> (\<forall>j<Suc n. \<not> ?ok ((c # cs) ! j) (GRID st))"
      using True by auto
    have unchanged: "\<forall>k. k \<notin> ?idx ` set (c # xs) \<longrightarrow> GRID st' k = GRID st k"
    proof (intro allI impI)
      fix k assume k: "k \<notin> ?idx ` set (c # xs)"
      then have "k \<notin> ?idx ` set xs" "k \<noteq> ?idx c" by auto
      then have "GRID st' k = GRID st2 k" "GRID st2 k = GRID st k"
        using ih(10) by (simp_all add: st1_def st2_def)
      then show "GRID st' k = GRID st k" by simp
    qed
    have written: "\<forall>x\<in>set (c # xs). \<exists>y\<in>set (c # xs). GRID st' (?idx x) = Some y"
    proof
      fix x assume x: "x \<in> set (c # xs)"
      show "\<exists>y\<in>set (c # xs). GRID st' (?idx x) = Some y"
      proof (cases "?idx x \<in> ?idx ` set xs")
        case True
        then obtain x' where "x' \<in> set xs" "?idx x' = ?idx x" by auto
        then show ?thesis using ih(11) by (metis list.set_intros(2))
      next
        case False
        then have "x = c" using x by auto
        moreover have "GRID st' (?idx x) = GRID st2 (?idx x)" using ih(10) False by simp
        ultimately show ?thesis by (simp add: st1_def st2_def)
      qed
    qed
    show ?thesis
      apply (rule exI [of _ st'], rule exI [of _ "c # cs"], rule exI [of _ "c # xs"], intro conjI)
      subgoal using step ih(1) by simp
      subgoal using ih(2) by simp
      subgoal using gen .
      subgoal using ih(4) by (simp add: st1_def st2_def)
      subgoal using ih(5) by simp
      subgoal using ih(6) True by simp
      subgoal using none .
      subgoal using ih(8) by (simp add: st1_def st2_def)
      subgoal using ih(9) by (simp add: st1_def st2_def)
      subgoal using unchanged .
      subgoal using written .
      done
  qed
qed

text \<open>
  Claim C8 (one outer iteration). With a non-empty image list and a non-empty active list,
  an iteration of the \<^verbatim>\<open>while\<close> loop makes one draw \<open>r\<close>, picks the seed at position
  \<open>floor (r * length)\<close> of the active list, and then generates exactly \<open>maxTries\<close> candidates \<open>cs\<close>, each
  from that seed and each with four draws, whether or not candidates are accepted. The
  accepted candidates \<open>xs\<close> are a subsequence of \<open>cs\<close>; they passed the in-bounds test,
  were written into the grid at their indices and are appended to the active list. None is
  accepted exactly when every candidate fails a test against the grid as it was before the
  iteration, and exactly then the seed, and nothing else, is removed from the active list.
\<close>

theorem outerStep_effect:
  assumes "IMAGES C \<noteq> []" and "ACTIVE st \<noteq> []"
  shows "\<exists>st' cs xs.
           randomActiveIndex rnd st = nat \<lfloor>val (rnd (draws st)) * real (length (ACTIVE st))\<rfloor> \<and>
           randomActiveIndex rnd st < length (ACTIVE st) \<and>
           outerStep rnd C st = Some st' \<and>
           length cs = MAX_TRIES C \<and>
           (\<forall>j<MAX_TRIES C.
              createSampleFromSample rnd (draws st + 1 + 4 * j) (ACTIVE st ! randomActiveIndex rnd st)
                (IMAGES C) (MIN_DIST C) (IS_CIRCLE C) = Some (cs ! j)) \<and>
           draws st' = draws st + 1 + 4 * MAX_TRIES C \<and>
           subseq xs cs \<and>
           (\<forall>x\<in>set xs. isInBounds x (first_col C) (first_row C) (COLS C) (ROWS C) (BOUNDS C)) \<and>
           (xs = [] \<longleftrightarrow>
              (\<forall>j<MAX_TRIES C.
                 \<not> (isInBounds (cs ! j) (first_col C) (first_row C) (COLS C) (ROWS C) (BOUNDS C) \<and>
                    isAllowedToDraw (cs ! j) (CELL_SIZE C) (COLS C) (MIN_DIST C) (GRID st) (RANGE C)))) \<and>
           hasFoundNewSample st' = (xs \<noteq> []) \<and>
           ACTIVE st' =
             (if xs = []
              then take (randomActiveIndex rnd st) (ACTIVE st) @
                   drop (Suc (randomActiveIndex rnd st)) (ACTIVE st)
              else ACTIVE st @ xs) \<and>
           (\<forall>k. k \<notin> (\<lambda>x. getIndexInGrid x (CELL_SIZE C) (COLS C)) ` set xs \<longrightarrow> GRID st' k = GRID st k) \<and>
           (\<forall>x\<in>set xs. \<exists>y\<in>set xs. GRID st' (getIndexInGrid x (CELL_SIZE C) (COLS C)) = Some y)"
proof -
  let ?i = "randomActiveIndex rnd st"
  let ?idx = "\<lambda>x. getIndexInGrid x (CELL_SIZE C) (COLS C)"
  let ?inB = "\<lambda>x. isInBounds x (first_col C) (first_row C) (COLS C) (ROWS C) (BOUNDS C)"
  let ?ok = "\<lambda>x g. ?inB x \<and> isAllowedToDraw x (CELL_SIZE C) (COLS C) (MIN_DIST C) g (RANGE C)"
  define st0 where "st0 = st\<lparr>hasFoundNewSample := False, draws := draws st + 1\<rparr>"
  have i: "?i < length (ACTIVE st)"
    unfolding randomActiveIndex_def using assms(2) by (intro draw_floor_range) simp
  from tries_trace [OF assms(1), of rnd "ACTIVE st ! ?i" "MAX_TRIES C" st0]
  obtain st1 cs xs where t:
    "tries rnd C (ACTIVE st ! ?i) (MAX_TRIES C) st0 = Some st1" "length cs = MAX_TRIES C"
    "\<forall>j<MAX_TRIES C. createSampleFromSample rnd (draws st0 + 4 * j) (ACTIVE st ! ?i)
        (IMAGES C) (MIN_DIST C) (IS_CIRCLE C) = Some (cs ! j)"
    "draws st1 = draws st0 + 4 * MAX_TRIES C" "subseq xs cs" "\<forall>x\<in>set xs. ?inB x"
    "xs = [] \<longleftrightarrow> (\<forall>j<MAX_TRIES C. \<not> ?ok (cs ! j) (GRID st0))"
    "hasFoundNewSample st1 = (hasFoundNewSample st0 \<or> xs \<noteq> [])"
    "ACTIVE st1 = ACTIVE st0 @ xs"
    "\<forall>k. k \<notin> ?idx ` set xs \<longrightarrow> GRID st1 k = GRID st0 k"
    "\<forall>x\<in>set xs. \<exists>y\<in>set xs. GRID st1 (?idx x) = Some y"
    by blast
  define st' where "st' = (if xs = [] then st1\<lparr>ACTIVE := splice1 (ACTIVE st1) ?i\<rparr> else st1)"
  have step: "outerStep rnd C st = Some st'"
    using t(1,8) by (simp add: outerStep_def Let_def st0_def st'_def)
  show ?thesis
    apply (rule exI [of _ st'], rule exI [of _ cs], rule exI [of _ xs], intro conjI)
    subgoal by (simp add: randomActiveIndex_def)
    subgoal using i .
    subgoal using step .
    subgoal using t(2) .
    subgoal using t(3) by (simp add: st0_def)
    subgoal using t(4) by (simp add: st0_def st'_def)
    subgoal using t(5) .
    subgoal using t(6) .
    subgoal using t(7) by (simp add: st0_def)
    subgoal using t(8) by (simp add: st0_def st'_def)
    subgoal using t(9) by (simp add: st0_def st'_def splice1_def)
    subgoal using t(10) by (simp add: st0_def st'_def)
    subgoal using t(11) by (simp add: st0_def st'_def)
    done
qed

section \<open>The radius of a sample\<close>

lemma createSampleFromSample_radius:
  assumes "createSampleFromSample rnd k s imgs md circ = Some c"
  shows "radius c = (if circ then image_size (imgs ! nat (index c))
                     else getRadiusForSize (image_size (imgs ! nat (index c))))"
  using assms
  by (auto simp: createSampleFromSample_def Let_def imageAt_def split: option.splits if_splits)

text \<open>
  Claim C9 (radius of a created sample). The first sample and every candidate get the
  radius \<open>size\<close> when \<open>isCircle\<close> holds and \<open>sqrt (2 * size\<^sup>2) / 2\<close> otherwise, where
  \<open>size\<close> is the size of the image used; and \<^verbatim>\<open>getRadiusForSize\<close> is
  \<open>size * sqrt 2 / 2\<close> for every \<open>size \<ge> 0\<close>.
\<close>

theorem radius_derivation:
  "radius (createFirstSample rnd k b img circ) =
      (if circ then image_size img else sqrt (2 * (image_size img)\<^sup>2) / 2) \<and>
   (\<forall>c. createSampleFromSample rnd k s imgs md circ = Some c \<longrightarrow>
      radius c = (if circ then image_size (imgs ! nat (index c))
                  else sqrt (2 * (image_size (imgs ! nat (index c)))\<^sup>2) / 2)) \<and>
   (0 \<le> sz \<longrightarrow> getRadiusForSize sz = sz * sqrt 2 / 2)"
proof (intro conjI allI impI)
  show "radius (createFirstSample rnd k b img circ) =
      (if circ then image_size img else sqrt (2 * (image_size img)\<^sup>2) / 2)"
    by (simp add: createFirstSample_def Let_def getRadiusForSize_alt)
next
  fix c assume "createSampleFromSample rnd k s imgs md circ = Some c"
  then show "radius c = (if circ then image_size (imgs ! nat (index c))
                  else sqrt (2 * (image_size (imgs ! nat (index c)))\<^sup>2) / 2)"
    by (simp add: createSampleFromSample_radius getRadiusForSize_alt)
next
  assume "0 \<le> sz"
  then show "getRadiusForSize sz = sz * sqrt 2 / 2"
    by (rule getRadiusForSize_nonneg)
qed

section \<open>The neighbour scan\<close>

lemma hypot_ge_abs_x: "\<bar>dx\<bar> \<le> hypot dx dy"
  by (simp add: hypot_def real_le_rsqrt)

lemma hypot_ge_abs_y: "\<bar>dy\<bar> \<le> hypot dx dy"
  by (simp add: hypot_def real_le_rsqrt)

lemma hypot_commute: "hypot (a - b) (c - d) = hypot (b - a) (d - c)"
  by (simp add: hypot_def power2_commute)

lemma floor_diff_far:
  fixes a b cs D :: real
  assumes cs: "0 < cs" and R: "D \<le> of_int R * cs" and far: "R < \<lfloor>a / cs\<rfloor> - \<lfloor>b / cs\<rfloor>"
  shows "D < a - b"
proof -
  have "of_int (\<lfloor>a / cs\<rfloor> - \<lfloor>b / cs\<rfloor>) \<ge> (of_int R :: real) + 1"
    using far by (metis add.commute of_int_1 of_int_add of_int_le_iff zless_imp_add1_zle)
  moreover have "of_int \<lfloor>a / cs\<rfloor> \<le> a / cs" by simp
  moreover have "b / cs < of_int \<lfloor>b / cs\<rfloor> + 1" by linarith
  ultimately have "of_int R < a / cs - b / cs" by linarith
  then have "of_int R < (a - b) / cs" by (simp add: diff_divide_distrib)
  then have "of_int R * cs < a - b" using cs by (simp add: pos_less_divide_eq)
  with R show ?thesis by linarith
qed

lemma isAllowedToDraw_near:
  assumes "isAllowedToDraw s cs cols md g R" and "\<bar>i\<bar> \<le> R" and "\<bar>j\<bar> \<le> R"
  shows "\<not> tooClose s md (g (\<lfloor>sample_x s / cs\<rfloor> + i + (\<lfloor>sample_y s / cs\<rfloor> + j) * cols))"
proof -
  have "i \<in> {- R..R}" "j \<in> {- R..R}" using assms(2,3) by auto
  with assms(1) show ?thesis by (simp add: isAllowedToDraw_def Let_def list_all_iff)
qed

lemma accepted_is_spaced:
  assumes allowed: "isAllowedToDraw c cs cols md g R"
    and stored: "g k = Some n" "k = getIndexInGrid n cs cols"
    and cs: "0 < cs" and R: "md + radius c + radius n \<le> of_int R * cs"
  shows "md + radius c + radius n \<le> hypot (sample_x n - sample_x c) (sample_y n - sample_y c)"
proof -
  define i where "i = \<lfloor>sample_x n / cs\<rfloor> - \<lfloor>sample_x c / cs\<rfloor>"
  define j where "j = \<lfloor>sample_y n / cs\<rfloor> - \<lfloor>sample_y c / cs\<rfloor>"
  consider (near) "\<bar>i\<bar> \<le> R" "\<bar>j\<bar> \<le> R" | (right) "R < i" | (left) "R < - i" | (below) "R < j" | (above) "R < - j"
    by linarith
  then show ?thesis
  proof cases
    case near
    have "k = \<lfloor>sample_x c / cs\<rfloor> + i + (\<lfloor>sample_y c / cs\<rfloor> + j) * cols"
      by (simp add: stored(2) getIndexInGrid_def Let_def i_def j_def)
    with isAllowedToDraw_near [OF allowed near] stored(1)
    show ?thesis by (simp add: tooClose_def)
  next
    case right
    then have "md + radius c + radius n < sample_x n - sample_x c"
      unfolding i_def by (intro floor_diff_far [OF cs R])
    with hypot_ge_abs_x [of "sample_x n - sample_x c" "sample_y n - sample_y c"] show ?thesis by linarith
  next
    case left
    then have "md + radius c + radius n < sample_x c - sample_x n"
      unfolding i_def by (intro floor_diff_far [OF cs R]) simp
    with hypot_ge_abs_x [of "sample_x n - sample_x c" "sample_y n - sample_y c"] show ?thesis by linarith
  next
    case below
    then have "md + radius c + radius n < sample_y n - sample_y c"
      unfolding j_def by (intro floor_diff_far [OF cs R])
    with hypot_ge_abs_y [of "sample_y n - sample_y c" "sample_x n - sample_x c"] show ?thesis by linarith
  next
    case above
    then have "md + radius c + radius n < sample_y c - sample_y n"
      unfolding j_def by (intro floor_diff_far [OF cs R]) simp
    with hypot_ge_abs_y [of "sample_y n - sample_y c" "sample_x n - sample_x c"] show ?thesis by linarith
  qed
qed

section \<open>Properties of the grid kept by the loops\<close>

lemma tries_grid_invariant:
  assumes step: "\<And>g c k. Q g \<Longrightarrow>
      createSampleFromSample rnd k a (IMAGES C) (MIN_DIST C) (IS_CIRCLE C) = Some c \<Longrightarrow>
      isInBounds c (first_col C) (first_row C) (COLS C) (ROWS C) (BOUNDS C) \<Longrightarrow>
      isAllowedToDraw c (CELL_SIZE C) (COLS C) (MIN_DIST C) g (RANGE C) \<Longrightarrow>
      Q (g(getIndexInGrid c (CELL_SIZE C) (COLS C) \<mapsto> c))"
    and "Q (GRID st)" and "tries rnd C a n st = Some st'"
  shows "Q (GRID st')"
  using assms(2,3)
proof (induction n arbitrary: st)
  case 0
  then show ?case by simp
next
  case (Suc n)
  from Suc.prems(2) obtain c where
    c: "createSampleFromSample rnd (draws st) a (IMAGES C) (MIN_DIST C) (IS_CIRCLE C) = Some c"
    by (auto split: option.splits)
  show ?case
  proof (cases "isInBounds c (first_col C) (first_row C) (COLS C) (ROWS C) (BOUNDS C) \<and>
                isAllowedToDraw c (CELL_SIZE C) (COLS C) (MIN_DIST C) (GRID st) (RANGE C)")
    case True
    define st2 where "st2 = st\<lparr>draws := draws st + 4,
         GRID := (GRID st)(getIndexInGrid c (CELL_SIZE C) (COLS C) \<mapsto> c),
         ACTIVE := ACTIVE st @ [c], hasFoundNewSample := True\<rparr>"
    have g2: "GRID st2 = (GRID st)(getIndexInGrid c (CELL_SIZE C) (COLS C) \<mapsto> c)"
      by (simp add: st2_def)
    have "Q (GRID st2)"
      unfolding g2 using step [OF Suc.prems(1) c] True by blast
    moreover have "tries rnd C a n st2 = Some st'"
      using Suc.prems(2) c True by (simp add: Let_def st2_def)
    ultimately show ?thesis by (rule Suc.IH)
  next
    case False
    then have "tries rnd C a n (st\<lparr>draws := draws st + 4\<rparr>) = Some st'"
      using Suc.prems(2) c by (auto simp: Let_def split: if_splits)
    moreover have "Q (GRID (st\<lparr>draws := draws st + 4\<rparr>))" using Suc.prems(1) by simp
    ultimately show ?thesis by (intro Suc.IH [of "st\<lparr>draws := draws st + 4\<rparr>"])
  qed
qed

lemma outerStep_grid_invariant:
  assumes step: "\<And>g c k a. Q g \<Longrightarrow>
      createSampleFromSample rnd k a (IMAGES C) (MIN_DIST C) (IS_CIRCLE C) = Some c \<Longrightarrow>
      isInBounds c (first_col C) (first_row C) (COLS C) (ROWS C) (BOUNDS C) \<Longrightarrow>
      isAllowedToDraw c (CELL_SIZE C) (COLS C) (MIN_DIST C) g (RANGE C) \<Longrightarrow>
      Q (g(getIndexInGrid c (CELL_SIZE C) (COLS C) \<mapsto> c))"
    and "Q (GRID st)" and "outerStep rnd C st = Some st'"
  shows "Q (GRID st')"
proof -
  from assms(3) obtain st1 where
    t: "tries rnd C (ACTIVE st ! randomActiveIndex rnd st) (MAX_TRIES C)
          (st\<lparr>hasFoundNewSample := False, draws := draws st + 1\<rparr>) = Some st1"
    and st': "st' = (if \<not> hasFoundNewSample st1 then st1\<lparr>ACTIVE := splice1 (ACTIVE st1) (randomActiveIndex rnd st)\<rparr> else st1)"
    by (auto simp: outerStep_def Let_def split: option.splits)
  have "Q (GRID st1)"
    by (rule tries_grid_invariant [where Q = Q, OF step _ t]) (simp_all add: assms(2))
  then show ?thesis by (simp add: st')
qed

lemma samplerLoop_grid_invariant:
  assumes step: "\<And>g c k a. Q g \<Longrightarrow>
      createSampleFromSample rnd k a (IMAGES C) (MIN_DIST C) (IS_CIRCLE C) = Some c \<Longrightarrow>
      isInBounds c (first_col C) (first_row C) (COLS C) (ROWS C) (BOUNDS C) \<Longrightarrow>
      isAllowedToDraw c (CELL_SIZE C) (COLS C) (MIN_DIST C) g (RANGE C) \<Longrightarrow>
      Q (g(getIndexInGrid c (CELL_SIZE C) (COLS C) \<mapsto> c))"
    and "Q (GRID st)" and "samplerLoop rnd C fuel st = Returned g d"
  shows "Q g"
  using assms(2,3)
proof (induction fuel arbitrary: st)
  case 0
  then show ?case by (auto split: if_splits)
next
  case (Suc fuel)
  show ?case
  proof (cases "ACTIVE st = []")
    case True
    with Suc.prems show ?thesis by simp
  next
    case False
    with Suc.prems(2) obtain st' where s: "outerStep rnd C st = Some st'"
      and l: "samplerLoop rnd C fuel st' = Returned g d"
      by (auto split: option.splits)
    have "Q (GRID st')"
      by (rule outerStep_grid_invariant [where Q = Q, OF step Suc.prems(1) s])
    then show ?thesis using l by (rule Suc.IH)
  qed
qed

section \<open>The spacing invariant\<close>

lemma mkConsts_sel:
  "BOUNDS (mkConsts rnd opts) = bounds opts"
  "IMAGES (mkConsts rnd opts) = images opts"
  "IS_CIRCLE (mkConsts rnd opts) = isCircle opts"
  "MIN_DIST (mkConsts rnd opts) = minDist opts"
  "MAX_TRIES (mkConsts rnd opts) = maxTries opts"
  "CELL_SIZE (mkConsts rnd opts) = cellSizeOf opts"
  "COLS (mkConsts rnd opts) = \<lfloor>width (bounds opts) / cellSizeOf opts\<rfloor>"
  "ROWS (mkConsts rnd opts) = \<lfloor>height (bounds opts) / cellSizeOf opts\<rfloor>"
  "RANGE (mkConsts rnd opts) =
     \<lceil>(minDist opts + Max (set (map image_size (images opts))) * 2) / cellSizeOf opts\<rceil>"
  "first_col (mkConsts rnd opts) = \<lfloor>sample_x (firstSample rnd opts) / cellSizeOf opts\<rfloor>"
  "first_row (mkConsts rnd opts) = \<lfloor>sample_y (firstSample rnd opts) / cellSizeOf opts\<rfloor>"
  by (simp_all add: mkConsts_def Let_def)

lemma validated_hasValidImageList: "validated opts \<Longrightarrow> hasValidImageList (images opts)"
  by (auto simp: validated_def hasValidImageList_def list_all_iff)

lemma cellSizeOf_pos:
  assumes "validated opts"
  shows "0 < cellSizeOf opts"
proof -
  have ne: "set (map image_size (images opts)) \<noteq> {}" using assms by (simp add: validated_def)
  have "Min (set (map image_size (images opts))) \<in> set (map image_size (images opts))"
    using ne by (intro Min_in) simp_all
  then have "0 < Min (set (map image_size (images opts)))"
    using assms by (auto simp: validated_def list_all_iff)
  moreover have "0 \<le> minDist opts" using assms by (simp add: validated_def)
  ultimately show ?thesis by (simp add: cellSizeOf_def Let_def add_nonneg_pos)
qed

lemma range_covers:
  assumes "validated opts"
  shows "minDist opts + 2 * Max (set (map image_size (images opts)))
           \<le> of_int (RANGE (mkConsts rnd opts)) * cellSizeOf opts"
proof -
  define D where "D = minDist opts + Max (set (map image_size (images opts))) * 2"
  define cs where "cs = cellSizeOf opts"
  have cs: "0 < cs" unfolding cs_def by (rule cellSizeOf_pos [OF assms])
  have "D \<le> of_int \<lceil>D / cs\<rceil> * cs"
    by (rule iffD1 [OF pos_divide_le_eq [OF cs]]) (rule le_of_int_ceiling)
  moreover have "RANGE (mkConsts rnd opts) = \<lceil>D / cs\<rceil>"
    unfolding D_def cs_def by (rule mkConsts_sel(9))
  ultimately show ?thesis by (simp add: D_def cs_def mult.commute)
qed

lemma getRadiusForSize_le: "0 \<le> sz \<Longrightarrow> getRadiusForSize sz \<le> sz"
proof -
  assume sz: "0 \<le> sz"
  have "sqrt 2 \<le> 2" by (rule real_le_lsqrt) simp_all
  then have "sz * sqrt 2 \<le> sz * 2" using sz by (intro mult_left_mono) simp_all
  then show ?thesis using sz by (simp add: getRadiusForSize_nonneg)
qed

lemma radius_le_Max:
  assumes "validated opts" and "img \<in> set (images opts)"
  shows "(if isCircle opts then image_size img else getRadiusForSize (image_size img))
           \<le> Max (set (map image_size (images opts)))"
proof -
  have pos: "0 < image_size img" using assms by (auto simp: validated_def list_all_iff)
  have "image_size img \<le> Max (set (map image_size (images opts)))"
    using assms(2) by (intro Max_ge) simp_all
  moreover have "getRadiusForSize (image_size img) \<le> image_size img"
    using pos by (intro getRadiusForSize_le) simp
  ultimately show ?thesis by auto
qed

lemma firstSample_radius_le:
  assumes "validated opts"
  shows "radius (firstSample rnd opts) \<le> Max (set (map image_size (images opts)))"
proof -
  have "images opts ! 0 \<in> set (images opts)" using assms by (simp add: validated_def)
  from radius_le_Max [OF assms this] show ?thesis
    by (simp add: firstSample_def createFirstSample_def Let_def)
qed

lemma candidate_radius_le:
  assumes "validated opts"
    and "createSampleFromSample rnd k a (images opts) md (isCircle opts) = Some c"
  shows "radius c \<le> Max (set (map image_size (images opts)))"
proof -
  have ne: "images opts \<noteq> []" using assms(1) by (simp add: validated_def)
  have "0 \<le> index c" "index c < int (length (images opts))"
    using assms(2) draw_index_range [OF ne, of "rnd k"] by (auto simp: createSampleFromSample_eq [OF ne])
  then have "images opts ! nat (index c) \<in> set (images opts)" by simp
  from radius_le_Max [OF assms(1) this] show ?thesis
    by (simp add: createSampleFromSample_radius [OF assms(2)])
qed

lemma spacedGrid_insert:
  assumes Q: "spacedGrid cs cols md mx g"
    and rad: "radius c \<le> mx"
    and allowed: "isAllowedToDraw c cs cols md g R"
    and cs: "0 < cs" and R: "md + 2 * mx \<le> of_int R * cs"
  shows "spacedGrid cs cols md mx (g(getIndexInGrid c cs cols \<mapsto> c))"
proof -
  let ?k = "getIndexInGrid c cs cols"
  have old: "\<And>k n. g k = Some n \<Longrightarrow> k = getIndexInGrid n cs cols \<and> radius n \<le> mx"
    using Q by (simp add: spacedGrid_def)
  have sp: "\<And>i j a b. i \<noteq> j \<Longrightarrow> g i = Some a \<Longrightarrow> g j = Some b \<Longrightarrow>
         md + radius a + radius b \<le> hypot (sample_x b - sample_x a) (sample_y b - sample_y a)"
    using Q by (simp add: spacedGrid_def)
  have new: "md + radius c + radius n \<le> hypot (sample_x n - sample_x c) (sample_y n - sample_y c)"
    if "g k = Some n" for k n
  proof -
    have "k = getIndexInGrid n cs cols" "radius n \<le> mx" using old [OF that] by simp_all
    moreover have "md + radius c + radius n \<le> of_int R * cs" using rad \<open>radius n \<le> mx\<close> R by linarith
    ultimately show ?thesis using accepted_is_spaced [OF allowed that _ cs] by blast
  qed
  show ?thesis
    unfolding spacedGrid_def
  proof (intro conjI allI impI)
    fix k n assume "(g(?k \<mapsto> c)) k = Some n"
    then show "k = getIndexInGrid n cs cols" using old by (auto split: if_splits)
  next
    fix k n assume "(g(?k \<mapsto> c)) k = Some n"
    then show "radius n \<le> mx" using old rad by (auto split: if_splits)
  next
    fix i j a b
    assume ij: "i \<noteq> j" and a: "(g(?k \<mapsto> c)) i = Some a" and b: "(g(?k \<mapsto> c)) j = Some b"
    show "md + radius a + radius b \<le> hypot (sample_x b - sample_x a) (sample_y b - sample_y a)"
    proof (cases "i = ?k")
      case True
      then have "a = c" "g j = Some b" using a b ij by auto
      then show ?thesis using new by simp
    next
      case False
      note i = this
      show ?thesis
      proof (cases "j = ?k")
        case True
        then have "b = c" "g i = Some a" using a b i by auto
        then show ?thesis using new [of i a] hypot_commute [of "sample_x c" "sample_x a" "sample_y c" "sample_y a"]
          by (simp add: add.commute add.left_commute)
      next
        case False
        then show ?thesis using a b i ij sp by auto
      qed
    qed
  qed
qed

lemma sampler_spacedGrid:
  assumes run: "poissonImageSampler rnd fuel opts = Returned g d" and v: "validated opts"
  shows "spacedGrid (cellSizeOf opts) (COLS (mkConsts rnd opts)) (minDist opts)
           (Max (set (map image_size (images opts)))) g"
proof -
  let ?C = "mkConsts rnd opts"
  let ?mx = "Max (set (map image_size (images opts)))"
  let ?Q = "spacedGrid (cellSizeOf opts) (COLS ?C) (minDist opts) ?mx"
  have empty: "?Q Map.empty" by (simp add: spacedGrid_def)
  have valid: "hasValidImageList (images opts)" by (rule validated_hasValidImageList [OF v])
  show ?thesis
  proof (cases "isInBounds (firstSample rnd opts) (first_col ?C) (first_row ?C) (COLS ?C) (ROWS ?C) (BOUNDS ?C)")
    case False
    then have "g = Map.empty" using run valid by (simp add: poissonImageSampler_def Let_def)
    then show ?thesis using empty by simp
  next
    case True
    then have loop: "samplerLoop rnd ?C fuel (initState rnd opts) = Returned g d"
      using run valid by (simp add: poissonImageSampler_def Let_def)
    have init: "?Q (GRID (initState rnd opts))"
      using firstSample_radius_le [OF v, of rnd]
      by (auto simp: initState_def Let_def spacedGrid_def split: if_splits)
    have step: "?Q (g'(getIndexInGrid c (CELL_SIZE ?C) (COLS ?C) \<mapsto> c))"
      if "?Q g'" "createSampleFromSample rnd k a (IMAGES ?C) (MIN_DIST ?C) (IS_CIRCLE ?C) = Some c"
         "isAllowedToDraw c (CELL_SIZE ?C) (COLS ?C) (MIN_DIST ?C) g' (RANGE ?C)"
      for g' c k a
    proof -
      have "radius c \<le> ?mx" using that(2) candidate_radius_le [OF v] by (simp add: mkConsts_sel(2,3))
      moreover have "isAllowedToDraw c (cellSizeOf opts) (COLS ?C) (minDist opts) g' (RANGE ?C)"
        using that(3) by (simp add: mkConsts_sel(4,6))
      ultimately have "?Q (g'(getIndexInGrid c (cellSizeOf opts) (COLS ?C) \<mapsto> c))"
        using that(1) cellSizeOf_pos [OF v] range_covers [OF v, of rnd]
        by (intro spacedGrid_insert [where R = "RANGE ?C"]) simp_all
      then show ?thesis by (simp add: mkConsts_sel(6))
    qed
    show ?thesis
      by (rule samplerLoop_grid_invariant [where Q = ?Q, OF step init loop])
  qed
qed

text \<open>
  Claim C1 (spacing invariant). Whenever the sampler returns a grid on validated options,
  any two samples that the grid holds at different positions are at Euclidean distance at
  least \<open>minDist\<close> plus the two radii. The neighbour scan reaches every stored sample
  that could be nearer, and it is made before each insertion.
\<close>

theorem spacing_invariant:
  assumes "poissonImageSampler rnd fuel opts = Returned g d" and "validated opts"
    and "g i = Some A" and "g j = Some B" and "i \<noteq> j"
  shows "hypot (sample_x B - sample_x A) (sample_y B - sample_y A)
           \<ge> minDist opts + radius A + radius B"
  using sampler_spacedGrid [OF assms(1,2)] assms(3,4,5) by (simp add: spacedGrid_def)

section \<open>Evaluating the concrete runs\<close>

lemma sqrt2_bounds: "141 / 100 < sqrt 2" "sqrt 2 < 142 / 100"
proof -
  show "141 / 100 < sqrt 2" by (rule real_less_rsqrt) (simp add: power2_eq_square)
  show "sqrt 2 < 142 / 100" by (rule real_less_lsqrt) (simp_all add: power2_eq_square)
qed

lemma floor_cell:
  fixes x :: real
  assumes "0 \<le> x" and "of_int n * 3000 \<le> 141 * x" and "142 * x < (of_int n + 1) * 3000"
  shows "\<lfloor>x / exCell\<rfloor> = n"
  unfolding exCell_def
proof (rule floor_unique)
  have lo: "141 / 100 * x \<le> sqrt 2 * x" using sqrt2_bounds(1) assms(1) by (intro mult_right_mono) simp_all
  have hi: "sqrt 2 * x \<le> 142 / 100 * x" using sqrt2_bounds(2) assms(1) by (intro mult_right_mono) simp_all
  have e: "x / (30 / sqrt 2) = sqrt 2 * x / 30" by simp
  show "of_int n \<le> x / (30 / sqrt 2)" unfolding e using lo assms(2) by simp
  show "x / (30 / sqrt 2) < of_int n + 1" unfolding e using hi assms(3) by simp
qed

lemma floor_cell_vals [simp]:
  "\<lfloor>5 / exCell\<rfloor> = 0"
  "\<lfloor>35 / exCell\<rfloor> = 1"
  "\<lfloor>40 / exCell\<rfloor> = 1"
  "\<lfloor>65 / exCell\<rfloor> = 3"
  by (rule floor_cell; simp)+

lemma ceiling_cell [simp]: "\<lceil>30 / exCell\<rceil> = 2"
proof -
  have "30 / exCell = sqrt 2" by (simp add: exCell_def)
  then show ?thesis using sqrt2_bounds by (intro ceiling_unique) simp_all
qed

lemma hypot_less_iff: "0 \<le> m \<Longrightarrow> hypot dx dy < m \<longleftrightarrow> dx\<^sup>2 + dy\<^sup>2 < m\<^sup>2"
  unfolding hypot_def
  by (metis abs_of_nonneg real_sqrt_abs real_sqrt_less_iff)

lemma exOpts_cellSize: "cellSizeOf (exOpts bx mt) = exCell"
  by (simp add: cellSizeOf_def exOpts_def exCell_def)

lemma exOpts_firstSample:
  assumes "0 \<le> r" "r < 1" "rnd 0 = mkDraw r" "rnd 1 = mkDraw 0" "bx + 5 + r * 30 = 5"
  shows "firstSample rnd (exOpts bx mt) = exF"
  using assms
  by (simp add: firstSample_def exOpts_def createFirstSample_def exF_def clampRandom_def val_mkDraw)

lemma exOpts_consts:
  assumes "firstSample rnd (exOpts bx mt) = exF"
  shows "mkConsts rnd (exOpts bx mt) = exConsts bx mt"
  using assms
  by (simp add: mkConsts_def Let_def exOpts_cellSize exConsts_def)
     (simp add: exOpts_def exF_def)

lemma cand_east:
  assumes "rnd k = mkDraw 0" "rnd (k + 1) = mkDraw 0" "rnd (k + 2) = mkDraw 0"
  shows "createSampleFromSample rnd k s [\<lparr> image_size = 5 \<rparr>] 20 True =
           Some \<lparr> sample_x = sample_x s + (25 + radius s), sample_y = sample_y s, radius = 5, index = 0 \<rparr>"
  using assms by (simp add: createSampleFromSample_def imageAt_def clampRandom_def val_mkDraw)

lemma cand_south:
  assumes "rnd k = mkDraw 0" "rnd (k + 1) = mkDraw (1 / 4)" "rnd (k + 3) = mkDraw 0"
  shows "createSampleFromSample rnd k s [\<lparr> image_size = 5 \<rparr>] 20 True =
           Some \<lparr> sample_x = sample_x s, sample_y = sample_y s + (25 + radius s), radius = 5, index = 0 \<rparr>"
  using assms by (simp add: createSampleFromSample_def imageAt_def clampRandom_def val_mkDraw)

lemma ex_index [simp]:
  "getIndexInGrid exF exCell 1 = 0"
  "getIndexInGrid exA exCell 1 = 1"
  "getIndexInGrid exB exCell 1 = 1"
  by (simp_all add: getIndexInGrid_def exF_def exA_def exB_def)

lemma ex_inBounds [simp]:
  "isInBounds exF 0 0 1 1 \<lparr> bounds_x = bx, bounds_y = 0, width = 40, height = 40 \<rparr>"
  "isInBounds exA 0 0 1 1 \<lparr> bounds_x = bx, bounds_y = 0, width = 40, height = 40 \<rparr>"
  "isInBounds exB 0 0 1 1 \<lparr> bounds_x = bx, bounds_y = 0, width = 40, height = 40 \<rparr>"
  by (simp_all add: isInBounds_def exF_def exA_def exB_def)

lemma ex_tooClose [simp]:
  "tooClose s 20 None = False"
  "tooClose exA 20 (Some exF) = False"
  "tooClose exB 20 (Some exF) = False"
  "tooClose exA 20 (Some exB) = False"
  "tooClose exB 20 (Some exA) = False"
  "tooClose exA 20 (Some exA) = True"
  "tooClose exB 20 (Some exB) = True"
  by (simp_all add: tooClose_def hypot_less_iff exF_def exA_def exB_def)

lemma upto_range2: "[- 2..2] = [- 2, - 1, 0, 1, 2 :: int]"
  by (simp add: upto_rec1)

lemma ex_allowed:
  "isAllowedToDraw exA exCell 1 20 [0 \<mapsto> exF] 2"
  "isAllowedToDraw exA exCell 1 20 [0 \<mapsto> exF, 1 \<mapsto> exB] 2"
  "isAllowedToDraw exB exCell 1 20 [0 \<mapsto> exF, 1 \<mapsto> exA] 2"
  "\<not> isAllowedToDraw exA exCell 1 20 [0 \<mapsto> exF, 1 \<mapsto> exA] 2"
  unfolding isAllowedToDraw_def Let_def upto_range2
  by (simp_all add: exA_def [THEN arg_cong [where f = sample_x]]
       exA_def [THEN arg_cong [where f = sample_y]] exB_def [THEN arg_cong [where f = sample_x]]
       exB_def [THEN arg_cong [where f = sample_y]])

lemma tries_Suc_accept:
  assumes "createSampleFromSample rnd (draws st) a (IMAGES C) (MIN_DIST C) (IS_CIRCLE C) = Some c"
    and "isInBounds c (first_col C) (first_row C) (COLS C) (ROWS C) (BOUNDS C)"
    and "isAllowedToDraw c (CELL_SIZE C) (COLS C) (MIN_DIST C) (GRID st) (RANGE C)"
  shows "tries rnd C a (Suc n) st =
           tries rnd C a n
             (st\<lparr>draws := draws st + 4,
                 GRID := (GRID st)(getIndexInGrid c (CELL_SIZE C) (COLS C) \<mapsto> c),
                 ACTIVE := ACTIVE st @ [c],
                 hasFoundNewSample := True\<rparr>)"
  using assms by (simp add: Let_def)

lemma tries_Suc_reject:
  assumes "createSampleFromSample rnd (draws st) a (IMAGES C) (MIN_DIST C) (IS_CIRCLE C) = Some c"
    and "\<not> isInBounds c (first_col C) (first_row C) (COLS C) (ROWS C) (BOUNDS C) \<or>
         \<not> isAllowedToDraw c (CELL_SIZE C) (COLS C) (MIN_DIST C) (GRID st) (RANGE C)"
  shows "tries rnd C a (Suc n) st = tries rnd C a n (st\<lparr>draws := draws st + 4\<rparr>)"
  using assms by (auto simp: Let_def)

lemma exConsts_sel [simp]:
  "BOUNDS (exConsts bx mt) = \<lparr> bounds_x = bx, bounds_y = 0, width = 40, height = 40 \<rparr>"
  "IMAGES (exConsts bx mt) = [\<lparr> image_size = 5 \<rparr>]"
  "IS_CIRCLE (exConsts bx mt) = True"
  "MIN_DIST (exConsts bx mt) = 20"
  "MAX_TRIES (exConsts bx mt) = mt"
  "CELL_SIZE (exConsts bx mt) = exCell"
  "COLS (exConsts bx mt) = 1"
  "ROWS (exConsts bx mt) = 1"
  "RANGE (exConsts bx mt) = 2"
  "first_col (exConsts bx mt) = 0"
  "first_row (exConsts bx mt) = 0"
  by (simp_all add: exConsts_def)

lemma cand_F_east:
  assumes "rnd k = mkDraw 0" "rnd (k + 1) = mkDraw 0" "rnd (k + 2) = mkDraw 0"
  shows "createSampleFromSample rnd k exF [\<lparr> image_size = 5 \<rparr>] 20 True = Some exA"
  using cand_east [OF assms, of exF] by (simp add: exF_def exA_def)

lemma cand_F_south:
  assumes "rnd k = mkDraw 0" "rnd (k + 1) = mkDraw (1 / 4)" "rnd (k + 3) = mkDraw 0"
  shows "createSampleFromSample rnd k exF [\<lparr> image_size = 5 \<rparr>] 20 True = Some exB"
  using cand_south [OF assms, of exF] by (simp add: exF_def exB_def)

lemma cand_A_east:
  assumes "rnd k = mkDraw 0" "rnd (k + 1) = mkDraw 0" "rnd (k + 2) = mkDraw 0"
  shows "createSampleFromSample rnd k exA [\<lparr> image_size = 5 \<rparr>] 20 True =
           Some \<lparr> sample_x = 65, sample_y = 5, radius = 5, index = 0 \<rparr>"
  using cand_east [OF assms, of exA] by (simp add: exA_def)

lemma exRnd_later: "0 < k \<Longrightarrow> exRnd r k = mkDraw 0"
  by (simp add: exRnd_def)

lemma runX_step1:
  "outerStep (exRnd r) (exConsts bx (Suc 0))
     \<lparr> GRID = [0 \<mapsto> exF], ACTIVE = [exF], hasFoundNewSample = False, draws = 2 \<rparr> =
   Some \<lparr> GRID = [0 \<mapsto> exF, 1 \<mapsto> exA], ACTIVE = [exF, exA], hasFoundNewSample = True, draws = 7 \<rparr>"
proof -
  let ?st = "\<lparr> GRID = [0 \<mapsto> exF], ACTIVE = [exF], hasFoundNewSample = False, draws = 3 \<rparr>"
  have c: "createSampleFromSample (exRnd r) (draws ?st) exF (IMAGES (exConsts bx (Suc 0)))
             (MIN_DIST (exConsts bx (Suc 0))) (IS_CIRCLE (exConsts bx (Suc 0))) = Some exA"
    by (simp add: cand_F_east exRnd_later)
  have "tries (exRnd r) (exConsts bx (Suc 0)) exF (Suc 0) ?st =
      Some \<lparr> GRID = [0 \<mapsto> exF, 1 \<mapsto> exA], ACTIVE = [exF, exA], hasFoundNewSample = True, draws = 7 \<rparr>"
    by (subst tries_Suc_accept [OF c]) (simp_all add: ex_allowed)
  then show ?thesis
    by (simp add: outerStep_def randomActiveIndex_def exRnd_later val_mkDraw)
qed

lemma runX_step2:
  "outerStep (exRnd r) (exConsts bx (Suc 0))
     \<lparr> GRID = [0 \<mapsto> exF, 1 \<mapsto> exA], ACTIVE = [exF, exA], hasFoundNewSample = True, draws = 7 \<rparr> =
   Some \<lparr> GRID = [0 \<mapsto> exF, 1 \<mapsto> exA], ACTIVE = [exA], hasFoundNewSample = False, draws = 12 \<rparr>"
proof -
  let ?st = "\<lparr> GRID = [0 \<mapsto> exF, 1 \<mapsto> exA], ACTIVE = [exF, exA], hasFoundNewSample = False, draws = 8 \<rparr>"
  have c: "createSampleFromSample (exRnd r) (draws ?st) exF (IMAGES (exConsts bx (Suc 0)))
             (MIN_DIST (exConsts bx (Suc 0))) (IS_CIRCLE (exConsts bx (Suc 0))) = Some exA"
    by (simp add: cand_F_east exRnd_later)
  have "tries (exRnd r) (exConsts bx (Suc 0)) exF (Suc 0) ?st =
      Some \<lparr> GRID = [0 \<mapsto> exF, 1 \<mapsto> exA], ACTIVE = [exF, exA], hasFoundNewSample = False, draws = 12 \<rparr>"
    by (subst tries_Suc_reject [OF c]) (simp_all add: ex_allowed)
  then show ?thesis
    by (simp add: outerStep_def randomActiveIndex_def exRnd_later val_mkDraw splice1_def)
qed

lemma runX_step3:
  "outerStep (exRnd r) (exConsts bx (Suc 0))
     \<lparr> GRID = [0 \<mapsto> exF, 1 \<mapsto> exA], ACTIVE = [exA], hasFoundNewSample = False, draws = 12 \<rparr> =
   Some \<lparr> GRID = [0 \<mapsto> exF, 1 \<mapsto> exA], ACTIVE = [], hasFoundNewSample = False, draws = 17 \<rparr>"
proof -
  let ?st = "\<lparr> GRID = [0 \<mapsto> exF, 1 \<mapsto> exA], ACTIVE = [exA], hasFoundNewSample = False, draws = 13 \<rparr>"
  have c: "createSampleFromSample (exRnd r) (draws ?st) exA (IMAGES (exConsts bx (Suc 0)))
             (MIN_DIST (exConsts bx (Suc 0))) (IS_CIRCLE (exConsts bx (Suc 0))) =
           Some \<lparr> sample_x = 65, sample_y = 5, radius = 5, index = 0 \<rparr>"
    by (simp add: cand_A_east exRnd_later)
  have "tries (exRnd r) (exConsts bx (Suc 0)) exA (Suc 0) ?st =
      Some \<lparr> GRID = [0 \<mapsto> exF, 1 \<mapsto> exA], ACTIVE = [exA], hasFoundNewSample = False, draws = 17 \<rparr>"
    by (subst tries_Suc_reject [OF c]) (simp_all add: isInBounds_def)
  then show ?thesis
    by (simp add: outerStep_def randomActiveIndex_def exRnd_later val_mkDraw splice1_def)
qed

lemma runX_loop:
  "samplerLoop (exRnd r) (exConsts bx (Suc 0)) 3
     \<lparr> GRID = [0 \<mapsto> exF], ACTIVE = [exF], hasFoundNewSample = False, draws = 2 \<rparr> =
   Returned [0 \<mapsto> exF, 1 \<mapsto> exA] 17"
  by (simp add: numeral_3_eq_3 runX_step1 runX_step2 runX_step3)

lemma runX:
  assumes "0 \<le> r" "r < 1" "bx + 5 + r * 30 = 5"
  shows "poissonImageSampler (exRnd r) 3 (exOpts bx (Suc 0)) = Returned [0 \<mapsto> exF, 1 \<mapsto> exA] 17"
proof -
  have f: "firstSample (exRnd r) (exOpts bx (Suc 0)) = exF"
    using assms by (intro exOpts_firstSample [where r = r]) (simp_all add: exRnd_def)
  have C: "mkConsts (exRnd r) (exOpts bx (Suc 0)) = exConsts bx (Suc 0)"
    by (rule exOpts_consts [OF f])
  have v: "hasValidImageList (images (exOpts bx (Suc 0)))"
    by (simp add: hasValidImageList_def exOpts_def)
  have init: "initState (exRnd r) (exOpts bx (Suc 0)) =
      \<lparr> GRID = [0 \<mapsto> exF], ACTIVE = [exF], hasFoundNewSample = False, draws = 2 \<rparr>"
    by (simp add: initState_def Let_def f C exOpts_cellSize)
  show ?thesis
    by (simp add: poissonImageSampler_def Let_def v f C init runX_loop)
qed

section \<open>A run that never returns\<close>

lemma exRndLoop_zero: "k mod 9 \<noteq> 8 \<Longrightarrow> exRndLoop k = mkDraw 0"
  by (simp add: exRndLoop_def)

lemma exRndLoop_quarter: "k mod 9 = 8 \<Longrightarrow> exRndLoop k = mkDraw (1 / 4)"
  by (simp add: exRndLoop_def)

lemma runY_tries:
  assumes g: "g = [0 \<mapsto> exF] \<or> g = [0 \<mapsto> exF, 1 \<mapsto> exB]" and k: "k mod 9 = 3"
  shows "tries exRndLoop (exConsts bx mt) exF (Suc (Suc 0))
           \<lparr> GRID = g, ACTIVE = act, hasFoundNewSample = False, draws = k \<rparr> =
         Some \<lparr> GRID = [0 \<mapsto> exF, 1 \<mapsto> exB], ACTIVE = act @ [exA, exB],
                hasFoundNewSample = True, draws = k + 8 \<rparr>"
proof -
  let ?C = "exConsts bx mt"
  let ?st = "\<lparr> GRID = g, ACTIVE = act, hasFoundNewSample = False, draws = k \<rparr>"
  let ?st1 = "\<lparr> GRID = [0 \<mapsto> exF, 1 \<mapsto> exA], ACTIVE = act @ [exA],
                hasFoundNewSample = True, draws = k + 4 \<rparr>"
  let ?st2 = "\<lparr> GRID = [0 \<mapsto> exF, 1 \<mapsto> exB], ACTIVE = act @ [exA, exB],
                hasFoundNewSample = True, draws = k + 8 \<rparr>"
  have r1: "exRndLoop k = mkDraw 0" "exRndLoop (k + 1) = mkDraw 0" "exRndLoop (k + 2) = mkDraw 0"
    by (rule exRndLoop_zero, use k in presburger)+
  have r2: "exRndLoop (k + 4) = mkDraw 0" "exRndLoop (k + 4 + 1) = mkDraw (1 / 4)"
    "exRndLoop (k + 4 + 3) = mkDraw 0"
  proof -
    show "exRndLoop (k + 4) = mkDraw 0" by (rule exRndLoop_zero, use k in presburger)
    show "exRndLoop (k + 4 + 1) = mkDraw (1 / 4)" by (rule exRndLoop_quarter, use k in presburger)
    show "exRndLoop (k + 4 + 3) = mkDraw 0" by (rule exRndLoop_zero, use k in presburger)
  qed
  have c1: "createSampleFromSample exRndLoop (draws ?st) exF (IMAGES ?C) (MIN_DIST ?C) (IS_CIRCLE ?C) = Some exA"
    using cand_F_east [OF r1] by simp
  have b1: "isInBounds exA (first_col ?C) (first_row ?C) (COLS ?C) (ROWS ?C) (BOUNDS ?C)"
    by simp
  have a1: "isAllowedToDraw exA (CELL_SIZE ?C) (COLS ?C) (MIN_DIST ?C) (GRID ?st) (RANGE ?C)"
    using g by (auto simp: ex_allowed)
  have e1: "?st\<lparr>draws := draws ?st + 4,
                 GRID := (GRID ?st)(getIndexInGrid exA (CELL_SIZE ?C) (COLS ?C) \<mapsto> exA),
                 ACTIVE := ACTIVE ?st @ [exA],
                 hasFoundNewSample := True\<rparr> = ?st1"
    using g by auto
  have c2: "createSampleFromSample exRndLoop (draws ?st1) exF (IMAGES ?C) (MIN_DIST ?C) (IS_CIRCLE ?C) = Some exB"
    using cand_F_south [OF r2] by simp
  have b2: "isInBounds exB (first_col ?C) (first_row ?C) (COLS ?C) (ROWS ?C) (BOUNDS ?C)"
    by simp
  have a2: "isAllowedToDraw exB (CELL_SIZE ?C) (COLS ?C) (MIN_DIST ?C) (GRID ?st1) (RANGE ?C)"
    by (simp add: ex_allowed)
  have e2: "?st1\<lparr>draws := draws ?st1 + 4,
                 GRID := (GRID ?st1)(getIndexInGrid exB (CELL_SIZE ?C) (COLS ?C) \<mapsto> exB),
                 ACTIVE := ACTIVE ?st1 @ [exB],
                 hasFoundNewSample := True\<rparr> = ?st2"
    by simp
  have "tries exRndLoop ?C exF (Suc (Suc 0)) ?st = tries exRndLoop ?C exF (Suc 0) ?st1"
    using tries_Suc_accept [OF c1 b1 a1, of "Suc 0"] unfolding e1 .
  also have "\<dots> = tries exRndLoop ?C exF 0 ?st2"
    using tries_Suc_accept [OF c2 b2 a2, of 0] unfolding e2 .
  also have "\<dots> = Some ?st2" by simp
  finally show ?thesis .
qed

lemma runY_step:
  assumes g: "g = [0 \<mapsto> exF] \<or> g = [0 \<mapsto> exF, 1 \<mapsto> exB]" and k: "k mod 9 = 2"
  shows "outerStep exRndLoop (exConsts bx (Suc (Suc 0)))
           \<lparr> GRID = g, ACTIVE = exF # rest, hasFoundNewSample = b, draws = k \<rparr> =
         Some \<lparr> GRID = [0 \<mapsto> exF, 1 \<mapsto> exB], ACTIVE = exF # rest @ [exA, exB],
                hasFoundNewSample = True, draws = k + 9 \<rparr>"
proof -
  have k1: "Suc k mod 9 = 3" using k by presburger
  have r: "exRndLoop k = mkDraw 0" by (rule exRndLoop_zero, use k in presburger)
  show ?thesis
    using runY_tries [OF g k1, of bx "Suc (Suc 0)" "exF # rest"]
    by (simp add: outerStep_def randomActiveIndex_def r val_mkDraw)
qed

lemma runY_never_returns:
  assumes "g = [0 \<mapsto> exF] \<or> g = [0 \<mapsto> exF, 1 \<mapsto> exB]" and "k mod 9 = 2"
  shows "samplerLoop exRndLoop (exConsts bx (Suc (Suc 0))) fuel
           \<lparr> GRID = g, ACTIVE = exF # rest, hasFoundNewSample = b, draws = k \<rparr> = OutOfFuel"
  using assms
proof (induction fuel arbitrary: g rest b k)
  case 0
  then show ?case by simp
next
  case (Suc fuel)
  have kk: "(k + 9) mod 9 = 2" using Suc.prems(2) by presburger
  have "samplerLoop exRndLoop (exConsts bx (Suc (Suc 0))) fuel
           \<lparr> GRID = [0 \<mapsto> exF, 1 \<mapsto> exB], ACTIVE = exF # (rest @ [exA, exB]),
             hasFoundNewSample = True, draws = k + 9 \<rparr> = OutOfFuel"
    by (rule Suc.IH [OF disjI2 [OF refl] kk])
  then show ?case using runY_step [OF Suc.prems, of bx rest b] by simp
qed

lemma runY_init:
  "firstSample exRndLoop (exOpts 0 mt) = exF"
  "mkConsts exRndLoop (exOpts 0 mt) = exConsts 0 mt"
  "initState exRndLoop (exOpts 0 mt) =
     \<lparr> GRID = [0 \<mapsto> exF], ACTIVE = [exF], hasFoundNewSample = False, draws = 2 \<rparr>"
proof -
  show f: "firstSample exRndLoop (exOpts 0 mt) = exF"
    by (rule exOpts_firstSample [where r = 0]) (simp_all add: exRndLoop_def)
  show C: "mkConsts exRndLoop (exOpts 0 mt) = exConsts 0 mt"
    by (rule exOpts_consts [OF f])
  show "initState exRndLoop (exOpts 0 mt) =
     \<lparr> GRID = [0 \<mapsto> exF], ACTIVE = [exF], hasFoundNewSample = False, draws = 2 \<rparr>"
    by (simp add: initState_def Let_def f C exOpts_cellSize)
qed

lemma exOpts_valid: "hasValidImageList (images (exOpts bx mt))"
  by (simp add: hasValidImageList_def exOpts_def)

text \<open>
  Claim C5 (termination for every sequence of draws). The code does not keep it. With
  bounds 40 by 40 at the origin, one image of size 5 drawn as a circle, \<open>minDist = 20\<close>,
  two tries per seed and the draws \<open>exRndLoop\<close> (every ninth draw, from the ninth on, is
  \<open>1/4\<close>, every other draw is \<open>0\<close>), each iteration of the loop picks the first sample as
  the seed and accepts the same two candidates again, one replacing the other at index
  \<open>1\<close>. The active list grows by two in every iteration and the call never returns,
  whatever the fuel.
\<close>

theorem adversarial_draws_never_return: "\<forall>fuel. poissonImageSampler exRndLoop fuel (exOpts 0 2) = OutOfFuel"
proof
  fix fuel
  have "samplerLoop exRndLoop (exConsts 0 (Suc (Suc 0))) fuel
           \<lparr> GRID = [0 \<mapsto> exF], ACTIVE = exF # [], hasFoundNewSample = False, draws = 2 \<rparr> = OutOfFuel"
    by (rule runY_never_returns [OF disjI1 [OF refl]]) simp
  then show "poissonImageSampler exRndLoop fuel (exOpts 0 2) = OutOfFuel"
    by (simp add: poissonImageSampler_def Let_def exOpts_valid runY_init numeral_2_eq_2)
qed

section \<open>Degenerate bounds\<close>

lemma firstSample_radius_pos:
  assumes "images opts \<noteq> []" "list_all (\<lambda>v. 0 < image_size v) (images opts)"
  shows "0 < radius (firstSample rnd opts)"
proof -
  have "images opts ! 0 \<in> set (images opts)" using assms(1) by simp
  then have pos: "0 < image_size (images opts ! 0)" using assms(2) by (simp add: list_all_iff)
  then have "0 < getRadiusForSize (image_size (images opts ! 0))"
    by (simp add: getRadiusForSize_nonneg)
  with pos show ?thesis by (simp add: firstSample_def createFirstSample_def Let_def)
qed

lemma degenerate_not_inBounds:
  assumes "images opts \<noteq> []" "list_all (\<lambda>v. 0 < image_size v) (images opts)"
    and "width (bounds opts) \<le> 0 \<or> height (bounds opts) \<le> 0"
  shows "\<not> isInBounds (firstSample rnd opts) c r cols rows (bounds opts)"
  using firstSample_radius_pos [OF assms(1,2), of rnd] assms(3)
  by (auto simp: isInBounds_def)

lemma sampler_first_rejected:
  assumes "\<not> isInBounds (firstSample rnd opts) (first_col (mkConsts rnd opts))
             (first_row (mkConsts rnd opts)) (COLS (mkConsts rnd opts)) (ROWS (mkConsts rnd opts))
             (bounds opts)"
  shows "poissonImageSampler rnd fuel opts =
           Returned Map.empty (if hasValidImageList (images opts) then 2 else 0)"
  using assms by (simp add: poissonImageSampler_def Let_def mkConsts_sel(1))

text \<open>
  Claim C4 (degenerate bounds and unplaceable seed). With a non-empty list of positive
  sizes, a width or a height that is zero or negative makes the sampler return the empty
  grid; and whenever the first sample fails the in-bounds test the sampler returns the
  empty grid. Both hold for every amount of fuel, also none, and at most the two draws of
  the first sample are made: the loop is never entered.
\<close>

theorem unplaceable_seed_empty:
  "(images opts \<noteq> [] \<and> list_all (\<lambda>v. 0 < image_size v) (images opts) \<and>
     (width (bounds opts) \<le> 0 \<or> height (bounds opts) \<le> 0)
      \<longrightarrow> poissonImageSampler rnd fuel opts = Returned Map.empty 2) \<and>
   (\<not> isInBounds (firstSample rnd opts) (first_col (mkConsts rnd opts))
        (first_row (mkConsts rnd opts)) (COLS (mkConsts rnd opts)) (ROWS (mkConsts rnd opts))
        (bounds opts)
      \<longrightarrow> (\<exists>d. poissonImageSampler rnd fuel opts = Returned Map.empty d \<and> d \<le> 2))"
proof (intro conjI impI)
  assume a: "images opts \<noteq> [] \<and> list_all (\<lambda>v. 0 < image_size v) (images opts) \<and>
     (width (bounds opts) \<le> 0 \<or> height (bounds opts) \<le> 0)"
  then have "hasValidImageList (images opts)"
    by (auto simp: hasValidImageList_def list_all_iff)
  moreover have "\<not> isInBounds (firstSample rnd opts) (first_col (mkConsts rnd opts))
        (first_row (mkConsts rnd opts)) (COLS (mkConsts rnd opts)) (ROWS (mkConsts rnd opts))
        (bounds opts)"
    using a by (intro degenerate_not_inBounds) simp_all
  ultimately show "poissonImageSampler rnd fuel opts = Returned Map.empty 2"
    by (simp add: sampler_first_rejected)
next
  assume "\<not> isInBounds (firstSample rnd opts) (first_col (mkConsts rnd opts))
        (first_row (mkConsts rnd opts)) (COLS (mkConsts rnd opts)) (ROWS (mkConsts rnd opts))
        (bounds opts)"
  then show "\<exists>d. poissonImageSampler rnd fuel opts = Returned Map.empty d \<and> d \<le> 2"
    by (simp add: sampler_first_rejected)
qed

text \<open>The scenario of the specification: one image of size 10 and bounds of width and height 0.\<close>

theorem unplaceable_seed_empty_witness:
  "poissonImageSampler (exRnd 0) 0 exFlat = Returned Map.empty 2 \<and>
   (\<exists>d. poissonImageSampler (exRnd 0) 0 exFlat = Returned Map.empty d \<and> d \<le> 2)"
proof -
  have a: "images exFlat \<noteq> [] \<and> list_all (\<lambda>v. 0 < image_size v) (images exFlat) \<and>
     (width (bounds exFlat) \<le> 0 \<or> height (bounds exFlat) \<le> 0)"
    by (simp add: exFlat_def)
  have b: "\<not> isInBounds (firstSample (exRnd 0) exFlat) (first_col (mkConsts (exRnd 0) exFlat))
        (first_row (mkConsts (exRnd 0) exFlat)) (COLS (mkConsts (exRnd 0) exFlat))
        (ROWS (mkConsts (exRnd 0) exFlat)) (bounds exFlat)"
    using a by (intro degenerate_not_inBounds) simp_all
  show ?thesis
    using unplaceable_seed_empty [of exFlat "exRnd 0" 0] a b by blast
qed

section \<open>Image indices\<close>

lemma candidate_index_range:
  assumes "createSampleFromSample rnd k a imgs md circ = Some c"
  shows "0 \<le> index c \<and> index c < int (length imgs)"
  using assms
  by (auto simp: createSampleFromSample_def Let_def imageAt_def split: option.splits if_splits)

lemma sampler_indexedGrid:
  assumes run: "poissonImageSampler rnd fuel opts = Returned g d"
  shows "indexedGrid (images opts) g"
proof -
  let ?C = "mkConsts rnd opts"
  let ?Q = "indexedGrid (images opts)"
  have empty: "?Q Map.empty" by (simp add: indexedGrid_def)
  show ?thesis
  proof (cases "hasValidImageList (images opts) \<and>
      isInBounds (firstSample rnd opts) (first_col ?C) (first_row ?C) (COLS ?C) (ROWS ?C) (BOUNDS ?C)")
    case False
    then have "g = Map.empty" using run by (auto simp: poissonImageSampler_def Let_def split: if_splits)
    then show ?thesis using empty by simp
  next
    case True
    then have loop: "samplerLoop rnd ?C fuel (initState rnd opts) = Returned g d"
      using run by (simp add: poissonImageSampler_def Let_def)
    have ne: "images opts \<noteq> []" using True by (simp add: hasValidImageList_def)
    have init: "?Q (GRID (initState rnd opts))"
      using ne by (auto simp: initState_def Let_def indexedGrid_def firstSample_def
          createFirstSample_def split: if_splits)
    have step: "?Q (g'(getIndexInGrid c (CELL_SIZE ?C) (COLS ?C) \<mapsto> c))"
      if "?Q g'" "createSampleFromSample rnd k a (IMAGES ?C) (MIN_DIST ?C) (IS_CIRCLE ?C) = Some c"
      for g' c k a
      using that candidate_index_range [OF that(2)]
      by (auto simp: indexedGrid_def mkConsts_sel(2))
    show ?thesis
      by (rule samplerLoop_grid_invariant [where Q = ?Q, OF step init loop])
  qed
qed

text \<open>
  Claim C10 (image indices). Every sample of a returned grid has an index that is a
  position of the image list. The first sample has index \<open>0\<close>, takes its radius from the
  size of the first image, and is the only active sample when the loop is entered.
\<close>

theorem sample_index_valid:
  "(\<forall>g d i s. poissonImageSampler rnd fuel opts = Returned g d \<longrightarrow> g i = Some s \<longrightarrow>
       0 \<le> index s \<and> index s < int (length (images opts))) \<and>
   index (firstSample rnd opts) = 0 \<and>
   radius (firstSample rnd opts) =
     (if isCircle opts then image_size (images opts ! 0)
      else getRadiusForSize (image_size (images opts ! 0))) \<and>
   ACTIVE (initState rnd opts) = [firstSample rnd opts]"
proof (intro conjI allI impI)
  fix g d i s
  assume "poissonImageSampler rnd fuel opts = Returned g d" "g i = Some s"
  then have "0 \<le> index s \<and> index s < int (length (images opts))"
    using sampler_indexedGrid by (auto simp: indexedGrid_def)
  then show "0 \<le> index s" "index s < int (length (images opts))" by simp_all
qed (simp_all add: firstSample_def createFirstSample_def initState_def Let_def)

text \<open>The indices of the two samples of the run with every draw 0.\<close>

theorem sample_index_valid_witness:
  "index exA = 0 \<and> index (firstSample (exRnd 0) (exOpts 0 1)) = 0"
proof -
  have run: "poissonImageSampler (exRnd 0) 3 (exOpts 0 1) = Returned [0 \<mapsto> exF, 1 \<mapsto> exA] 17"
    using runX [of 0 0] by simp
  have "[0 \<mapsto> exF, 1 \<mapsto> exA] (1::int) = Some exA" by simp
  with run sample_index_valid [of "exRnd 0" 3 "exOpts 0 1"]
  have "0 \<le> index exA \<and> index exA < int (length (images (exOpts 0 1)))" by blast
  moreover have "index (firstSample (exRnd 0) (exOpts 0 1)) = 0"
    using sample_index_valid [of "exRnd 0" 3 "exOpts 0 1"] by blast
  ultimately show ?thesis by (simp add: exOpts_def)
qed

text \<open>
  The invariant on a run that returns two samples: bounds 40 by 40 at the origin, one image
  of size 5 drawn as a circle, \<open>minDist = 20\<close>, one try per seed, every draw 0.
\<close>

theorem spacing_invariant_witness:
  "validated (exOpts 0 1) \<and>
   poissonImageSampler (exRnd 0) 3 (exOpts 0 1) = Returned [0 \<mapsto> exF, 1 \<mapsto> exA] 17 \<and>
   hypot (sample_x exA - sample_x exF) (sample_y exA - sample_y exF) \<ge> 20 + radius exF + radius exA"
proof -
  have v: "validated (exOpts 0 1)" by (simp add: validated_def exOpts_def)
  have run: "poissonImageSampler (exRnd 0) 3 (exOpts 0 1) = Returned [0 \<mapsto> exF, 1 \<mapsto> exA] 17"
    using runX [of 0 0] by simp
  have "hypot (sample_x exA - sample_x exF) (sample_y exA - sample_y exF)
           \<ge> minDist (exOpts 0 1) + radius exF + radius exA"
    by (rule spacing_invariant [OF run v, of 0 _ 1]) simp_all
  then show ?thesis using v run by (simp add: exOpts_def)
qed

section \<open>Further concrete facts\<close>

lemma runX_init:
  assumes "0 \<le> r" "r < 1" "bx + 5 + r * 30 = 5"
  shows "firstSample (exRnd r) (exOpts bx mt) = exF"
    and "mkConsts (exRnd r) (exOpts bx mt) = exConsts bx mt"
proof -
  show f: "firstSample (exRnd r) (exOpts bx mt) = exF"
    using assms by (intro exOpts_firstSample [where r = r]) (simp_all add: exRnd_def)
  show "mkConsts (exRnd r) (exOpts bx mt) = exConsts bx mt"
    by (rule exOpts_consts [OF f])
qed

text \<open>A candidate of the seed at \<open>(5, 5)\<close> with radius 5: its distance is between 30 and 50.\<close>

theorem createSampleFromSample_distance_witness:
  "\<exists>c. createSampleFromSample (exRnd 0) 3 exF [\<lparr> image_size = 5 \<rparr>] 20 True = Some c \<and>
       30 \<le> hypot (sample_x c - sample_x exF) (sample_y c - sample_y exF) \<and>
       hypot (sample_x c - sample_x exF) (sample_y c - sample_y exF) \<le> 50"
proof -
  have r: "0 \<le> radius exF" by (simp add: exF_def)
  from createSampleFromSample_distance [of "[\<lparr> image_size = 5 \<rparr>]" 20 exF "exRnd 0" 3 True, OF _ _ _ r]
  obtain c where c: "createSampleFromSample (exRnd 0) 3 exF [\<lparr> image_size = 5 \<rparr>] 20 True = Some c"
    "0 \<le> index c" "index c < int (length [\<lparr> image_size = 5 \<rparr>])"
    "20 + radius exF + image_size ([\<lparr> image_size = 5 \<rparr>] ! nat (index c))
       \<le> hypot (sample_x c - sample_x exF) (sample_y c - sample_y exF)"
    "hypot (sample_x c - sample_x exF) (sample_y c - sample_y exF)
       \<le> 20 + radius exF + image_size ([\<lparr> image_size = 5 \<rparr>] ! nat (index c)) + 20"
    by auto
  from c(2,3) have "index c = 0" by simp
  with c show ?thesis by (intro exI [of _ c]) (simp add: exF_def)
qed

lemma floor_cell_80 [simp]: "\<lfloor>80 / exCell\<rfloor> = 3"
  by (rule floor_cell; simp)

lemma exWide_cellSize: "cellSizeOf (exWide mt) = exCell"
  by (simp add: cellSizeOf_def exWide_def exCell_def)

lemma exWide_init:
  "firstSample exRndLoop (exWide mt) = exF"
  "mkConsts exRndLoop (exWide mt) = exWideConsts mt"
  "initState exRndLoop (exWide mt) =
     \<lparr> GRID = [0 \<mapsto> exF], ACTIVE = [exF], hasFoundNewSample = False, draws = 2 \<rparr>"
proof -
  show f: "firstSample exRndLoop (exWide mt) = exF"
    by (simp add: firstSample_def exWide_def createFirstSample_def exF_def clampRandom_def
        exRndLoop_def val_mkDraw)
  show C: "mkConsts exRndLoop (exWide mt) = exWideConsts mt"
    by (simp add: mkConsts_def Let_def exWide_cellSize exWideConsts_def f)
       (simp add: exWide_def exF_def)
  show "initState exRndLoop (exWide mt) =
     \<lparr> GRID = [0 \<mapsto> exF], ACTIVE = [exF], hasFoundNewSample = False, draws = 2 \<rparr>"
    by (simp add: initState_def Let_def f C exWide_cellSize exWideConsts_def getIndexInGrid_def exF_def)
qed

lemma exWideConsts_sel [simp]:
  "BOUNDS (exWideConsts mt) = \<lparr> bounds_x = 0, bounds_y = 0, width = 80, height = 80 \<rparr>"
  "IMAGES (exWideConsts mt) = [\<lparr> image_size = 5 \<rparr>]"
  "IS_CIRCLE (exWideConsts mt) = True"
  "MIN_DIST (exWideConsts mt) = 20"
  "MAX_TRIES (exWideConsts mt) = mt"
  "CELL_SIZE (exWideConsts mt) = exCell"
  "COLS (exWideConsts mt) = 3"
  "ROWS (exWideConsts mt) = 3"
  "RANGE (exWideConsts mt) = 2"
  "first_col (exWideConsts mt) = 0"
  "first_row (exWideConsts mt) = 0"
  by (simp_all add: exWideConsts_def)

lemma exWide_index [simp]:
  "getIndexInGrid exA exCell 3 = 1"
  "getIndexInGrid exB exCell 3 = 3"
  by (simp_all add: getIndexInGrid_def exA_def exB_def)

lemma exWide_inBounds [simp]:
  "isInBounds exA 0 0 3 3 \<lparr> bounds_x = 0, bounds_y = 0, width = 80, height = 80 \<rparr>"
  "isInBounds exB 0 0 3 3 \<lparr> bounds_x = 0, bounds_y = 0, width = 80, height = 80 \<rparr>"
  by (simp_all add: isInBounds_def exA_def exB_def)

lemma exWide_allowed:
  "isAllowedToDraw exA exCell 3 20 [0 \<mapsto> exF] 2"
  "isAllowedToDraw exB exCell 3 20 [0 \<mapsto> exF, 1 \<mapsto> exA] 2"
  unfolding isAllowedToDraw_def Let_def upto_range2
  by (simp_all add: exA_def [THEN arg_cong [where f = sample_x]]
       exA_def [THEN arg_cong [where f = sample_y]] exB_def [THEN arg_cong [where f = sample_x]]
       exB_def [THEN arg_cong [where f = sample_y]])

lemma exWide_step:
  "outerStep exRndLoop (exWideConsts (Suc (Suc 0)))
     \<lparr> GRID = [0 \<mapsto> exF], ACTIVE = [exF], hasFoundNewSample = False, draws = 2 \<rparr> =
   Some \<lparr> GRID = [0 \<mapsto> exF, 1 \<mapsto> exA, 3 \<mapsto> exB], ACTIVE = [exF, exA, exB],
          hasFoundNewSample = True, draws = 11 \<rparr>"
proof -
  let ?C = "exWideConsts (Suc (Suc 0))"
  let ?st = "\<lparr> GRID = [0 \<mapsto> exF], ACTIVE = [exF], hasFoundNewSample = False, draws = 3 \<rparr>"
  let ?st1 = "\<lparr> GRID = [0 \<mapsto> exF, 1 \<mapsto> exA], ACTIVE = [exF, exA],
                hasFoundNewSample = True, draws = 7 \<rparr>"
  let ?st2 = "\<lparr> GRID = [0 \<mapsto> exF, 1 \<mapsto> exA, 3 \<mapsto> exB], ACTIVE = [exF, exA, exB],
                hasFoundNewSample = True, draws = 11 \<rparr>"
  have r1: "exRndLoop 3 = mkDraw 0" "exRndLoop (3 + 1) = mkDraw 0" "exRndLoop (3 + 2) = mkDraw 0"
    by (simp_all add: exRndLoop_def)
  have r2: "exRndLoop 7 = mkDraw 0" "exRndLoop (7 + 1) = mkDraw (1 / 4)" "exRndLoop (7 + 3) = mkDraw 0"
    by (simp_all add: exRndLoop_def)
  have c1: "createSampleFromSample exRndLoop (draws ?st) exF (IMAGES ?C) (MIN_DIST ?C) (IS_CIRCLE ?C) = Some exA"
    using cand_F_east [OF r1] by simp
  have b1: "isInBounds exA (first_col ?C) (first_row ?C) (COLS ?C) (ROWS ?C) (BOUNDS ?C)" by simp
  have a1: "isAllowedToDraw exA (CELL_SIZE ?C) (COLS ?C) (MIN_DIST ?C) (GRID ?st) (RANGE ?C)"
    by (simp add: exWide_allowed)
  have e1: "?st\<lparr>draws := draws ?st + 4,
                 GRID := (GRID ?st)(getIndexInGrid exA (CELL_SIZE ?C) (COLS ?C) \<mapsto> exA),
                 ACTIVE := ACTIVE ?st @ [exA],
                 hasFoundNewSample := True\<rparr> = ?st1"
    by simp
  have c2: "createSampleFromSample exRndLoop (draws ?st1) exF (IMAGES ?C) (MIN_DIST ?C) (IS_CIRCLE ?C) = Some exB"
    using cand_F_south [OF r2] by simp
  have b2: "isInBounds exB (first_col ?C) (first_row ?C) (COLS ?C) (ROWS ?C) (BOUNDS ?C)" by simp
  have a2: "isAllowedToDraw exB (CELL_SIZE ?C) (COLS ?C) (MIN_DIST ?C) (GRID ?st1) (RANGE ?C)"
    by (simp add: exWide_allowed)
  have e2: "?st1\<lparr>draws := draws ?st1 + 4,
                 GRID := (GRID ?st1)(getIndexInGrid exB (CELL_SIZE ?C) (COLS ?C) \<mapsto> exB),
                 ACTIVE := ACTIVE ?st1 @ [exB],
                 hasFoundNewSample := True\<rparr> = ?st2"
    by simp
  have "tries exRndLoop ?C exF (Suc (Suc 0)) ?st = tries exRndLoop ?C exF (Suc 0) ?st1"
    using tries_Suc_accept [OF c1 b1 a1, of "Suc 0"] unfolding e1 .
  also have "\<dots> = tries exRndLoop ?C exF 0 ?st2"
    using tries_Suc_accept [OF c2 b2 a2, of 0] unfolding e2 .
  also have "\<dots> = Some ?st2" by simp
  finally have t: "tries exRndLoop ?C exF (Suc (Suc 0)) ?st = Some ?st2" .
  have r: "exRndLoop 2 = mkDraw 0" by (simp add: exRndLoop_def)
  show ?thesis
    using t by (simp add: outerStep_def randomActiveIndex_def r val_mkDraw)
qed

lemma exRndPick_vals:
  "k \<noteq> 7 \<Longrightarrow> exRndPick k = mkDraw 0"
  "exRndPick 7 = mkDraw (1 / 2)"
  by (simp_all add: exRndPick_def)

lemma exPick_init:
  "firstSample exRndPick (exOpts 0 mt) = exF"
  "mkConsts exRndPick (exOpts 0 mt) = exConsts 0 mt"
  "initState exRndPick (exOpts 0 mt) =
     \<lparr> GRID = [0 \<mapsto> exF], ACTIVE = [exF], hasFoundNewSample = False, draws = 2 \<rparr>"
proof -
  show f: "firstSample exRndPick (exOpts 0 mt) = exF"
    by (rule exOpts_firstSample [where r = 0]) (simp_all add: exRndPick_def)
  show C: "mkConsts exRndPick (exOpts 0 mt) = exConsts 0 mt"
    by (rule exOpts_consts [OF f])
  show "initState exRndPick (exOpts 0 mt) =
     \<lparr> GRID = [0 \<mapsto> exF], ACTIVE = [exF], hasFoundNewSample = False, draws = 2 \<rparr>"
    by (simp add: initState_def Let_def f C exOpts_cellSize)
qed

lemma exPick_step1:
  "outerStep exRndPick (exConsts 0 (Suc 0))
     \<lparr> GRID = [0 \<mapsto> exF], ACTIVE = [exF], hasFoundNewSample = False, draws = 2 \<rparr> =
   Some \<lparr> GRID = [0 \<mapsto> exF, 1 \<mapsto> exA], ACTIVE = [exF, exA], hasFoundNewSample = True, draws = 7 \<rparr>"
proof -
  let ?st = "\<lparr> GRID = [0 \<mapsto> exF], ACTIVE = [exF], hasFoundNewSample = False, draws = 3 \<rparr>"
  have c: "createSampleFromSample exRndPick (draws ?st) exF (IMAGES (exConsts 0 (Suc 0)))
             (MIN_DIST (exConsts 0 (Suc 0))) (IS_CIRCLE (exConsts 0 (Suc 0))) = Some exA"
    by (simp add: cand_F_east exRndPick_vals)
  have "tries exRndPick (exConsts 0 (Suc 0)) exF (Suc 0) ?st =
      Some \<lparr> GRID = [0 \<mapsto> exF, 1 \<mapsto> exA], ACTIVE = [exF, exA], hasFoundNewSample = True, draws = 7 \<rparr>"
    by (subst tries_Suc_accept [OF c]) (simp_all add: ex_allowed)
  then show ?thesis
    by (simp add: outerStep_def randomActiveIndex_def exRndPick_vals val_mkDraw)
qed

lemma exPick_index:
  "randomActiveIndex exRndPick
     \<lparr> GRID = g, ACTIVE = [exF, exA], hasFoundNewSample = b, draws = 7 \<rparr> = 1"
  by (simp add: randomActiveIndex_def exRndPick_vals val_mkDraw)

lemma exPick_step2:
  "outerStep exRndPick (exConsts 0 (Suc 0))
     \<lparr> GRID = [0 \<mapsto> exF, 1 \<mapsto> exA], ACTIVE = [exF, exA], hasFoundNewSample = True, draws = 7 \<rparr> =
   Some \<lparr> GRID = [0 \<mapsto> exF, 1 \<mapsto> exA], ACTIVE = [exF], hasFoundNewSample = False, draws = 12 \<rparr>"
proof -
  let ?st = "\<lparr> GRID = [0 \<mapsto> exF, 1 \<mapsto> exA], ACTIVE = [exF, exA], hasFoundNewSample = False, draws = 8 \<rparr>"
  have c: "createSampleFromSample exRndPick (draws ?st) exA (IMAGES (exConsts 0 (Suc 0)))
             (MIN_DIST (exConsts 0 (Suc 0))) (IS_CIRCLE (exConsts 0 (Suc 0))) =
           Some \<lparr> sample_x = 65, sample_y = 5, radius = 5, index = 0 \<rparr>"
    by (simp add: cand_A_east exRndPick_vals)
  have "tries exRndPick (exConsts 0 (Suc 0)) exA (Suc 0) ?st =
      Some \<lparr> GRID = [0 \<mapsto> exF, 1 \<mapsto> exA], ACTIVE = [exF, exA], hasFoundNewSample = False, draws = 12 \<rparr>"
    by (subst tries_Suc_reject [OF c]) (simp_all add: isInBounds_def)
  then show ?thesis
    by (simp add: outerStep_def exPick_index splice1_def)
qed

text \<open>
  Two iterations. In the first, with two tries on the 3 by 3 grid, the seed places two
  samples at the indices 1 and 3 and stays active. In the second, the draw \<open>1/2\<close> picks
  the seed at position 1 of an active list of two; its only candidate is out of bounds and
  the seed is removed.
\<close>

theorem outerStep_effect_witness:
  "outerStep exRndLoop (mkConsts exRndLoop (exWide 2)) (initState exRndLoop (exWide 2)) =
     Some \<lparr> GRID = [0 \<mapsto> exF, 1 \<mapsto> exA, 3 \<mapsto> exB], ACTIVE = [exF, exA, exB],
            hasFoundNewSample = True, draws = 2 + 1 + 4 * 2 \<rparr> \<and>
   (\<exists>cs xs. length cs = 2 \<and> subseq xs cs \<and> xs \<noteq> [] \<and> [exF, exA, exB] = [exF] @ xs) \<and>
   outerStep exRndPick (mkConsts exRndPick (exOpts 0 1)) (initState exRndPick (exOpts 0 1)) =
     Some \<lparr> GRID = [0 \<mapsto> exF, 1 \<mapsto> exA], ACTIVE = [exF, exA],
            hasFoundNewSample = True, draws = 7 \<rparr> \<and>
   randomActiveIndex exRndPick
     \<lparr> GRID = [0 \<mapsto> exF, 1 \<mapsto> exA], ACTIVE = [exF, exA], hasFoundNewSample = True, draws = 7 \<rparr> = 1 \<and>
   outerStep exRndPick (mkConsts exRndPick (exOpts 0 1))
     \<lparr> GRID = [0 \<mapsto> exF, 1 \<mapsto> exA], ACTIVE = [exF, exA], hasFoundNewSample = True, draws = 7 \<rparr> =
     Some \<lparr> GRID = [0 \<mapsto> exF, 1 \<mapsto> exA], ACTIVE = take 1 [exF, exA] @ drop 2 [exF, exA],
            hasFoundNewSample = False, draws = 7 + 1 + 4 * 1 \<rparr> \<and>
   (\<exists>c. createSampleFromSample exRndPick 8 exA [\<lparr> image_size = 5 \<rparr>] 20 True = Some c \<and>
        \<not> isInBounds c 0 0 1 1 (bounds (exOpts 0 1)))"
proof -
  let ?W = "exWideConsts (Suc (Suc 0))"
  let ?st0 = "\<lparr> GRID = [0 \<mapsto> exF], ACTIVE = [exF], hasFoundNewSample = False, draws = 2 \<rparr>"
  let ?stW = "\<lparr> GRID = [0 \<mapsto> exF, 1 \<mapsto> exA, 3 \<mapsto> exB], ACTIVE = [exF, exA, exB],
            hasFoundNewSample = True, draws = 11 \<rparr>"
  let ?C = "exConsts 0 (Suc 0)"
  let ?st7 = "\<lparr> GRID = [0 \<mapsto> exF, 1 \<mapsto> exA], ACTIVE = [exF, exA], hasFoundNewSample = True, draws = 7 \<rparr>"
  let ?st12 = "\<lparr> GRID = [0 \<mapsto> exF, 1 \<mapsto> exA], ACTIVE = [exF], hasFoundNewSample = False, draws = 12 \<rparr>"
  have neW: "IMAGES ?W \<noteq> []" and neC: "IMAGES ?C \<noteq> []" by simp_all
  have act0: "ACTIVE ?st0 \<noteq> []" and act7: "ACTIVE ?st7 \<noteq> []" by simp_all
  \<comment> \<open>the iteration that places two samples\<close>
  from outerStep_effect [OF neW act0, of exRndLoop] obtain st' cs xs where w:
    "outerStep exRndLoop ?W ?st0 = Some st'" "length cs = MAX_TRIES ?W" "subseq xs cs"
    "ACTIVE st' = (if xs = [] then take (randomActiveIndex exRndLoop ?st0) (ACTIVE ?st0) @
                   drop (Suc (randomActiveIndex exRndLoop ?st0)) (ACTIVE ?st0)
                   else ACTIVE ?st0 @ xs)"
    by blast
  from w(1) have stW: "st' = ?stW" by (simp add: exWide_step)
  have xsW: "xs \<noteq> []"
  proof
    assume "xs = []"
    then have "length (ACTIVE st') \<le> length (ACTIVE ?st0)" using w(4) by simp
    then show False by (simp add: stW)
  qed
  then have "[exF, exA, exB] = [exF] @ xs" using w(4) by (simp add: stW)
  with w(2,3) xsW have two: "\<exists>cs xs. length cs = 2 \<and> subseq xs cs \<and> xs \<noteq> [] \<and> [exF, exA, exB] = [exF] @ xs"
    by (intro exI [of _ cs] exI [of _ xs]) simp
  \<comment> \<open>the iteration that removes the seed at position 1\<close>
  from outerStep_effect [OF neC act7, of exRndPick] obtain st'' cs' xs' where p:
    "outerStep exRndPick ?C ?st7 = Some st''" "length cs' = MAX_TRIES ?C"
    "\<forall>j<MAX_TRIES ?C.
        createSampleFromSample exRndPick (draws ?st7 + 1 + 4 * j) (ACTIVE ?st7 ! randomActiveIndex exRndPick ?st7)
          (IMAGES ?C) (MIN_DIST ?C) (IS_CIRCLE ?C) = Some (cs' ! j)"
    "xs' = [] \<longleftrightarrow>
       (\<forall>j<MAX_TRIES ?C.
          \<not> (isInBounds (cs' ! j) (first_col ?C) (first_row ?C) (COLS ?C) (ROWS ?C) (BOUNDS ?C) \<and>
             isAllowedToDraw (cs' ! j) (CELL_SIZE ?C) (COLS ?C) (MIN_DIST ?C) (GRID ?st7) (RANGE ?C)))"
    "ACTIVE st'' = (if xs' = [] then take (randomActiveIndex exRndPick ?st7) (ACTIVE ?st7) @
                   drop (Suc (randomActiveIndex exRndPick ?st7)) (ACTIVE ?st7)
                   else ACTIVE ?st7 @ xs')"
    by blast
  from p(1) have st12: "st'' = ?st12" by (simp add: exPick_step2)
  from p(3) have gen: "createSampleFromSample exRndPick 8 exA [\<lparr> image_size = 5 \<rparr>] 20 True = Some (cs' ! 0)"
    by (simp add: exPick_index)
  then have cs0: "cs' ! 0 = \<lparr> sample_x = 65, sample_y = 5, radius = 5, index = 0 \<rparr>"
    by (simp add: cand_A_east exRndPick_vals)
  have rej: "\<not> isInBounds (cs' ! 0) 0 0 1 1 (bounds (exOpts 0 1))"
    unfolding cs0 by (simp add: isInBounds_def exOpts_def)
  have cW: "mkConsts exRndLoop (exWide 2) = ?W"
    by (simp add: exWide_init numeral_2_eq_2)
  have cC: "mkConsts exRndPick (exOpts 0 1) = ?C"
    by (simp add: exPick_init)
  have A: "outerStep exRndLoop (mkConsts exRndLoop (exWide 2)) (initState exRndLoop (exWide 2)) =
     Some \<lparr> GRID = [0 \<mapsto> exF, 1 \<mapsto> exA, 3 \<mapsto> exB], ACTIVE = [exF, exA, exB],
            hasFoundNewSample = True, draws = 2 + 1 + 4 * 2 \<rparr>"
    unfolding cW exWide_init(3) exWide_step by simp
  have B: "outerStep exRndPick (mkConsts exRndPick (exOpts 0 1)) (initState exRndPick (exOpts 0 1)) =
     Some ?st7"
    unfolding cC exPick_init(3) by (rule exPick_step1)
  have D: "outerStep exRndPick (mkConsts exRndPick (exOpts 0 1)) ?st7 =
     Some \<lparr> GRID = [0 \<mapsto> exF, 1 \<mapsto> exA], ACTIVE = take 1 [exF, exA] @ drop 2 [exF, exA],
            hasFoundNewSample = False, draws = 7 + 1 + 4 * 1 \<rparr>"
    unfolding cC exPick_step2 by simp
  have E: "\<exists>c. createSampleFromSample exRndPick 8 exA [\<lparr> image_size = 5 \<rparr>] 20 True = Some c \<and>
        \<not> isInBounds c 0 0 1 1 (bounds (exOpts 0 1))"
    using gen rej by blast
  show ?thesis
    using A two B exPick_index [of "[0 \<mapsto> exF, 1 \<mapsto> exA]" True] D E by blast
qed

text \<open>Squares of sizes 10 and 5.\<close>

theorem radius_derivation_witness:
  "radius (createFirstSample (exRnd 0) 3 (bounds exFlat) \<lparr> image_size = 10 \<rparr> False) = sqrt (2 * 10\<^sup>2) / 2 \<and>
   createSampleFromSample (exRnd 0) 3 exF [\<lparr> image_size = 5 \<rparr>] 20 False =
      Some (exA\<lparr>radius := getRadiusForSize 5\<rparr>) \<and>
   getRadiusForSize 5 = sqrt (2 * 5\<^sup>2) / 2 \<and>
   getRadiusForSize 10 = 10 * sqrt 2 / 2"
proof -
  have i: "index exA = 0" by (simp add: exA_def)
  have z: "(0::real) \<le> 10" by simp
  have c': "createSampleFromSample (exRnd 0) 3 exF [\<lparr> image_size = 5 \<rparr>] 20 False =
      Some (exA\<lparr>radius := getRadiusForSize 5\<rparr>)"
    by (simp add: createSampleFromSample_def imageAt_def clampRandom_def exRnd_def val_mkDraw
        exF_def exA_def)
  from radius_derivation [where rnd = "exRnd 0" and k = 3 and b = "bounds exFlat"
      and img = "\<lparr> image_size = 10 \<rparr>" and circ = False and s = exF
      and imgs = "[\<lparr> image_size = 5 \<rparr>]" and md = 20 and sz = 10] c' z
  have "radius (createFirstSample (exRnd 0) 3 (bounds exFlat) \<lparr> image_size = 10 \<rparr> False)
          = sqrt (2 * 10\<^sup>2) / 2"
    and "radius (exA\<lparr>radius := getRadiusForSize 5\<rparr>) = sqrt (2 * 5\<^sup>2) / 2"
    and "getRadiusForSize 10 = 10 * sqrt 2 / 2"
    by (auto simp: i)
  then show ?thesis using c' by simp
qed

text \<open>
  Claim C2 (bounds invariant for any origin). The code does not keep it when the origin of
  the bounds is not \<open>0\<close>: \<^verbatim>\<open>isInBounds\<close> compares with \<open>0\<close> and with the width and
  height, while \<^verbatim>\<open>createFirstSample\<close> offsets by the origin. With bounds
  \<open>{x: -15, y: 0, width: 40, height: 40}\<close>, first draw \<open>1/2\<close> and every later draw \<open>0\<close>,
  the returned grid holds a sample whose right edge is at \<open>40\<close>, beyond
  \<open>bounds.x + bounds.width = 25\<close>.
\<close>

theorem origin_not_read:
  "poissonImageSampler (exRnd (1 / 2)) 3 (exOpts (- 15) 1) = Returned [0 \<mapsto> exF, 1 \<mapsto> exA] 17 \<and>
   bounds_x (bounds (exOpts (- 15) 1)) + width (bounds (exOpts (- 15) 1))
     < sample_x exA + radius exA"
  using runX [of "1 / 2" "- 15"] by (simp add: exOpts_def exA_def)

text \<open>
  Claim C3 (grid indexing is in range and free of collisions). The code does not keep it.
  On bounds 40 by 40 the grid has one column and one row, so the only index in range is
  \<open>0\<close>; the run with every draw \<open>0\<close> returns a grid that holds a sample at index \<open>1\<close>.
  With two tries per seed and the draws \<open>exRndLoop\<close>, the first iteration of the loop
  accepts two different samples with the same index \<open>1\<close>, and the second replaces the first
  in the grid.
\<close>

theorem grid_index_collision:
  "poissonImageSampler (exRnd 0) 3 (exOpts 0 1) = Returned [0 \<mapsto> exF, 1 \<mapsto> exA] 17 \<and>
   COLS (mkConsts (exRnd 0) (exOpts 0 1)) * ROWS (mkConsts (exRnd 0) (exOpts 0 1)) = 1 \<and>
   outerStep exRndLoop (mkConsts exRndLoop (exOpts 0 2)) (initState exRndLoop (exOpts 0 2)) =
     Some \<lparr> GRID = [0 \<mapsto> exF, 1 \<mapsto> exB], ACTIVE = [exF, exA, exB],
            hasFoundNewSample = True, draws = 11 \<rparr> \<and>
   getIndexInGrid exA (cellSizeOf (exOpts 0 2)) (COLS (mkConsts exRndLoop (exOpts 0 2))) = 1 \<and>
   getIndexInGrid exB (cellSizeOf (exOpts 0 2)) (COLS (mkConsts exRndLoop (exOpts 0 2))) = 1 \<and>
   exA \<noteq> exB"
proof -
  have run: "poissonImageSampler (exRnd 0) 3 (exOpts 0 1) = Returned [0 \<mapsto> exF, 1 \<mapsto> exA] 17"
    using runX [of 0 0] by simp
  have cr: "COLS (mkConsts (exRnd 0) (exOpts 0 1)) * ROWS (mkConsts (exRnd 0) (exOpts 0 1)) = 1"
    by (simp add: runX_init)
  have s: "outerStep exRndLoop (mkConsts exRndLoop (exOpts 0 2)) (initState exRndLoop (exOpts 0 2)) =
     Some \<lparr> GRID = [0 \<mapsto> exF, 1 \<mapsto> exB], ACTIVE = [exF, exA, exB],
            hasFoundNewSample = True, draws = 11 \<rparr>"
    using runY_step [OF disjI1 [OF refl], of 2 0 "[]" False]
    by (simp add: runY_init numeral_2_eq_2)
  have "exA \<noteq> exB" by (simp add: exA_def exB_def)
  with run cr s show ?thesis by (simp add: runY_init exOpts_cellSize)
qed

text \<open>
  Claim C6 (the in-bounds test uses the candidate's own column and row). The code does not
  do so: the loop passes the column and row of the first sample. On bounds 40 by 40 with
  every draw \<open>0\<close>, the candidate at \<open>(35, 5)\<close> has column \<open>1\<close>, which is the number of
  columns, so the test with its own column rejects it; the sampler accepts it and returns
  it.
\<close>

theorem candidate_column_not_tested:
  "createSampleFromSample (exRnd 0) 3 exF (images (exOpts 0 1)) (minDist (exOpts 0 1))
      (isCircle (exOpts 0 1)) = Some exA \<and>
   \<not> isInBounds exA \<lfloor>sample_x exA / cellSizeOf (exOpts 0 1)\<rfloor> \<lfloor>sample_y exA / cellSizeOf (exOpts 0 1)\<rfloor>
       (COLS (mkConsts (exRnd 0) (exOpts 0 1))) (ROWS (mkConsts (exRnd 0) (exOpts 0 1)))
       (bounds (exOpts 0 1)) \<and>
   poissonImageSampler (exRnd 0) 3 (exOpts 0 1) = Returned [0 \<mapsto> exF, 1 \<mapsto> exA] 17"
proof -
  have run: "poissonImageSampler (exRnd 0) 3 (exOpts 0 1) = Returned [0 \<mapsto> exF, 1 \<mapsto> exA] 17"
    using runX [of 0 0] by simp
  have c: "createSampleFromSample (exRnd 0) 3 exF (images (exOpts 0 1)) (minDist (exOpts 0 1))
      (isCircle (exOpts 0 1)) = Some exA"
    using cand_F_east [of "exRnd 0" 3] by (simp add: exOpts_def exRnd_def)
  have col: "\<lfloor>sample_x exA / cellSizeOf (exOpts 0 1)\<rfloor> = 1"
    by (simp add: exOpts_cellSize exA_def)
  have "\<not> isInBounds exA \<lfloor>sample_x exA / cellSizeOf (exOpts 0 1)\<rfloor> \<lfloor>sample_y exA / cellSizeOf (exOpts 0 1)\<rfloor>
       (COLS (mkConsts (exRnd 0) (exOpts 0 1))) (ROWS (mkConsts (exRnd 0) (exOpts 0 1)))
       (bounds (exOpts 0 1))"
    unfolding col by (simp add: isInBounds_def runX_init)
  with c run show ?thesis by simp
qed

end
